theory Spec2Isabelle
  imports Main "HOL-Library.Multiset" "HOL-Library.Sublist"
begin

section \<open>The operating system as seen by one process\<close>

text \<open>
  The program \<^verbatim>\<open>dp.c\<close> is a sequence of system calls. Each process that runs its code
  is modelled on its own: the record \<open>world\<close> holds the ledger of the process (the calls
  it has issued, its open descriptors, its unwaited children, whether it still runs the
  program) together with the answers the kernel will give to its next calls. After
  \<^verbatim>\<open>fork\<close> the same code continues in two processes; the answer \<open>0\<close> selects the
  child's continuation, a positive answer the parent's.
\<close>

datatype ub =
    CopyLoopStore nat nat
  | TerminatorStore nat nat
  | ArrayReadPastEnd
  | ExecNullFile

datatype pstatus =
    Running
  | Exited int
  | Replaced "string list"
  | Undefined ub

datatype rd = RdErr | RdUpTo nat

datatype wr = WrFull | WrShort nat | WrErr

datatype event =
    EvPrintf string
  | EvPerror string
  | EvPipe "(int \<times> int) option"
  | EvFork int
  | EvDup2 int int
  | EvClose int
  | EvRead int nat int "char list"
  | EvWrite int "char list" int
  | EvExecvp "string option" "string list"
  | EvWait int int
  | EvExit int

record world =
  trace :: "event list"
  fds :: "int list"
  children :: "int list"
  status :: pstatus
  pipe_script :: "bool list"
  fork_script :: "int list"
  dup2_ok :: bool
  exec_ok :: bool
  inbox :: "char list"
  rd_script :: "rd list"
  wr_script :: "wr list"
  wait_script :: "(nat \<times> int) list"
  uninit :: "string option"
  uninit_byte :: char

definition emit :: "event \<Rightarrow> world \<Rightarrow> world" where
  "emit e w = w\<lparr>trace := trace w @ [e]\<rparr>"

definition EXIT_FAILURE :: int where
  "EXIT_FAILURE = 1"

definition STDIN_FILENO :: int where
  "STDIN_FILENO = 0"

definition STDOUT_FILENO :: int where
  "STDOUT_FILENO = 1"

definition PIPE_ERR :: string where
  "PIPE_ERR = ''Error: failed to create pipe.\<newline>''"

definition FORK_ERR :: string where
  "FORK_ERR = ''Error: failed to fork.\<newline>''"

definition DUP_ERR :: string where
  "DUP_ERR = ''Error: failed to duplicate file descriptor.\<newline>''"

definition EXEC_ERR :: string where
  "EXEC_ERR = ''Error: execvp failed.\<newline>''"

text \<open>\<^verbatim>\<open>printf\<close> and \<^verbatim>\<open>perror\<close> only leave a line in the ledger.\<close>

definition os_printf :: "string \<Rightarrow> world \<Rightarrow> world" where
  "os_printf msg w = emit (EvPrintf msg) w"

definition os_perror :: "string \<Rightarrow> world \<Rightarrow> world" where
  "os_perror msg w = emit (EvPerror msg) w"

text \<open>
  \<^verbatim>\<open>exit\<close> ends the process; the kernel releases every descriptor the process still
  holds.
\<close>

definition os_exit :: "int \<Rightarrow> world \<Rightarrow> world" where
  "os_exit code w = (emit (EvExit code) w)\<lparr>status := Exited code, fds := []\<rparr>"

definition undefined_behaviour :: "ub \<Rightarrow> world \<Rightarrow> world" where
  "undefined_behaviour u w = w\<lparr>status := Undefined u\<rparr>"

text \<open>
  \<^verbatim>\<open>pipe\<close> either fails (answer \<open>False\<close>, or no answer left) or hands out the two
  lowest descriptors that are not in use, the read endpoint first.
\<close>

fun first_free :: "nat \<Rightarrow> int \<Rightarrow> int list \<Rightarrow> int" where
  "first_free 0 n used = n"
| "first_free (Suc k) n used = (if n \<in> set used then first_free k (n + 1) used else n)"

definition lowest_free :: "int list \<Rightarrow> int" where
  "lowest_free used = first_free (length used) 0 used"

definition pipe_fds :: "int list \<Rightarrow> int \<times> int" where
  "pipe_fds used = (lowest_free used, lowest_free (lowest_free used # used))"

definition os_pipe :: "world \<Rightarrow> (int \<times> int) option \<times> world" where
  "os_pipe w =
     (case pipe_script w of
        True # ps \<Rightarrow>
          (let p = pipe_fds (fds w)
           in (Some p,
               (emit (EvPipe (Some p)) w)\<lparr>fds := fds w @ [fst p, snd p], pipe_script := ps\<rparr>))
      | _ \<Rightarrow> (None, (emit (EvPipe None) w)\<lparr>pipe_script := tl (pipe_script w)\<rparr>))"

text \<open>
  \<^verbatim>\<open>fork\<close> answers \<open>-1\<close> (failure), \<open>0\<close> (this is the new child, which has no
  children of its own) or the child's pid (this is the parent).
\<close>

definition os_fork :: "world \<Rightarrow> int \<times> world" where
  "os_fork w =
     (case fork_script w of
        [] \<Rightarrow> (- 1, emit (EvFork (- 1)) w)
      | r # rs \<Rightarrow>
          if 0 < r then (r, (emit (EvFork r) w)\<lparr>children := children w @ [r], fork_script := rs\<rparr>)
          else if r = 0 then (0, (emit (EvFork 0) w)\<lparr>children := [], fork_script := rs\<rparr>)
          else (- 1, (emit (EvFork (- 1)) w)\<lparr>fork_script := rs\<rparr>))"

definition os_dup2 :: "int \<Rightarrow> int \<Rightarrow> world \<Rightarrow> int \<times> world" where
  "os_dup2 oldfd newfd w =
     (if dup2_ok w \<and> 0 \<le> newfd
      then (newfd, (emit (EvDup2 oldfd newfd) w)\<lparr>fds := List.insert newfd (fds w)\<rparr>)
      else (- 1, emit (EvDup2 oldfd newfd) w))"

definition os_close :: "int \<Rightarrow> world \<Rightarrow> world" where
  "os_close fd w = (emit (EvClose fd) w)\<lparr>fds := removeAll fd (fds w)\<rparr>"

text \<open>
  A command is a \<^verbatim>\<open>char *[]\<close>: an array of strings in which \<open>None\<close> is the null
  pointer. \<^verbatim>\<open>execvp\<close> reads it up to the first null.
\<close>

definition argv_of :: "string option list \<Rightarrow> string list" where
  "argv_of cmd = map the (takeWhile (\<lambda>x. x \<noteq> None) cmd)"

text \<open>
  \<^verbatim>\<open>execvp(cmd[0], cmd)\<close> returns only when it fails. A null file name is outside
  what the call accepts.
\<close>

definition os_execvp :: "string option list \<Rightarrow> world \<Rightarrow> int option \<times> world" where
  "os_execvp cmd w =
     (case cmd of
        [] \<Rightarrow> (None, undefined_behaviour ArrayReadPastEnd w)
      | None # _ \<Rightarrow>
          (None, undefined_behaviour ExecNullFile (emit (EvExecvp None (argv_of cmd)) w))
      | Some file # _ \<Rightarrow>
          if exec_ok w
          then (None, (emit (EvExecvp (Some file) (argv_of cmd)) w)\<lparr>status := Replaced (argv_of cmd)\<rparr>)
          else (Some (- 1), emit (EvExecvp (Some file) (argv_of cmd)) w))"

text \<open>
  \<^verbatim>\<open>read(fd, buffer, nbyte)\<close> on the head-to-tee pipe. \<open>inbox\<close> is what the head
  still has to deliver before every write endpoint of that pipe is closed; the kernel
  hands over between one and \<open>nbyte\<close> pending bytes, as the script says, and \<open>0\<close>
  once nothing is pending. The bytes land at the start of \<open>buffer\<close>.
\<close>

definition os_read :: "int \<Rightarrow> char list \<Rightarrow> nat \<Rightarrow> world \<Rightarrow> int \<times> char list \<times> world" where
  "os_read fd buffer nbyte w =
     (case rd_script w of
        RdErr # rs \<Rightarrow> (- 1, buffer, (emit (EvRead fd nbyte (- 1) []) w)\<lparr>rd_script := rs\<rparr>)
      | _ \<Rightarrow>
          (let k = (case rd_script w of RdUpTo k # _ \<Rightarrow> max 1 k | _ \<Rightarrow> nbyte);
               n = min nbyte (min k (length (inbox w)));
               data = take n (inbox w)
           in (int n, data @ drop n buffer,
               (emit (EvRead fd nbyte (int n) data) w)
                 \<lparr>inbox := drop n (inbox w), rd_script := tl (rd_script w)\<rparr>)))"

text \<open>
  \<^verbatim>\<open>write(fd, buffer, n)\<close> offers the first \<open>n\<close> bytes of \<open>buffer\<close>. The kernel
  takes all of them, only the first \<open>k\<close>, or none (\<open>-1\<close>); the answer is the return
  value. \<open>WrErr\<close> is a failed write that returns to the caller, as it does when SIGPIPE
  is inherited as ignored. A write to a pipe whose reader is gone otherwise raises SIGPIPE,
  and its default action ends the process inside the call: that run has no answer here, so
  what is stated about the writes of a run is stated for runs without a failed write.
\<close>

definition os_write :: "int \<Rightarrow> char list \<Rightarrow> nat \<Rightarrow> world \<Rightarrow> int \<times> world" where
  "os_write fd buffer n w =
     (let data = take n buffer;
          ret = (case wr_script w of
                   WrShort k # _ \<Rightarrow> int (min k n)
                 | WrErr # _ \<Rightarrow> - 1
                 | _ \<Rightarrow> int n)
      in (ret, (emit (EvWrite fd data ret) w)\<lparr>wr_script := tl (wr_script w)\<rparr>))"

text \<open>
  \<^verbatim>\<open>wait(NULL)\<close> fails when there is no child left; otherwise it returns once some
  child has ended (the script says which one, and with what status) and removes it from
  the unwaited children.
\<close>

definition os_wait :: "world \<Rightarrow> int \<times> world" where
  "os_wait w =
     (case children w of
        [] \<Rightarrow> (- 1, (emit (EvWait (- 1) 0) w)\<lparr>wait_script := tl (wait_script w)\<rparr>)
      | c # cs \<Rightarrow>
          (let ks = (case wait_script w of [] \<Rightarrow> (0, 0) | x # _ \<Rightarrow> x);
               i = fst ks mod length (c # cs);
               pid = (c # cs) ! i
           in (pid, (emit (EvWait pid (snd ks)) w)
                      \<lparr>children := take i (c # cs) @ drop (Suc i) (c # cs),
                       wait_script := tl (wait_script w)\<rparr>)))"

section \<open>The helper functions\<close>

text \<open>
  \<^verbatim>\<open>closePipes(pipes, count)\<close>: for \<open>i = 0 .. count - 1\<close> close \<open>pipes[i][0]\<close>, then
  \<open>pipes[i][1]\<close>.
\<close>

fun closePipes :: "(int \<times> int) list \<Rightarrow> nat \<Rightarrow> world \<Rightarrow> world" where
  "closePipes pipes 0 w = w"
| "closePipes [] (Suc n) w = undefined_behaviour ArrayReadPastEnd w"
| "closePipes (p # pipes) (Suc n) w = closePipes pipes n (os_close (snd p) (os_close (fst p) w))"

text \<open>
  \<^verbatim>\<open>createAndExecuteProcess\<close> is a \<^verbatim>\<open>void\<close> function: \<open>Some ()\<close> is a return to the
  caller, \<open>None\<close> means that this process never comes back from the call.
\<close>

definition createAndExecuteProcess ::
  "string option list \<Rightarrow> int \<Rightarrow> int \<Rightarrow> (int \<times> int) list \<Rightarrow> nat \<Rightarrow> world \<Rightarrow> unit option \<times> world" where
  "createAndExecuteProcess cmd fd_to_dup fd_to_target pipes_to_close close_count w =
     (case os_fork w of (pid, w1) \<Rightarrow>
        if pid = - 1 then (None, os_exit EXIT_FAILURE (os_perror FORK_ERR w1))
        else if pid = 0 then
          (case os_dup2 fd_to_dup fd_to_target w1 of (d, w2) \<Rightarrow>
             if d = - 1 then (None, os_exit EXIT_FAILURE (os_perror DUP_ERR w2))
             else
               (case os_execvp cmd (closePipes pipes_to_close close_count w2) of
                  (None, w3) \<Rightarrow> (None, w3)
                | (Some e, w3) \<Rightarrow>
                    if e = - 1 then (None, os_exit EXIT_FAILURE (os_perror EXEC_ERR w3))
                    else (Some (), w3)))
        else (Some (), w1))"

section \<open>doublePipe\<close>

text \<open>
  The copy loop of the tee process:
  \<^verbatim>\<open>while ((bytesRead = read(head_to_tee[0], buffer, sizeof(buffer))) > 0) {
     write(tee_to_leg1[1], buffer, bytesRead);
     write(tee_to_leg2[1], buffer, bytesRead); }\<close>
  The return values of both \<^verbatim>\<open>write\<close> calls are dropped.
\<close>

function tee_loop :: "int \<Rightarrow> int \<Rightarrow> int \<Rightarrow> char list \<Rightarrow> world \<Rightarrow> world" where
  "tee_loop rfd wfd1 wfd2 buffer w =
     (case os_read rfd buffer 1024 w of (bytesRead, buffer', w1) \<Rightarrow>
        if 0 < bytesRead then
          tee_loop rfd wfd1 wfd2 buffer'
            (snd (os_write wfd2 buffer' (nat bytesRead)
               (snd (os_write wfd1 buffer' (nat bytesRead) w1))))
        else w1)"
  by pat_completeness auto
termination
  by (relation "measure (\<lambda>(rfd, wfd1, wfd2, buffer, w). length (inbox w))")
     (auto simp: os_read_def os_write_def emit_def Let_def split: list.splits rd.splits)

declare tee_loop.simps [simp del]

text \<open>The body of the tee process, from its first \<^verbatim>\<open>close\<close> to \<^verbatim>\<open>exit(0)\<close>.\<close>

definition tee :: "int \<times> int \<Rightarrow> int \<times> int \<Rightarrow> int \<times> int \<Rightarrow> world \<Rightarrow> world" where
  "tee head_to_tee tee_to_leg1 tee_to_leg2 w =
     (let w1 = os_close (snd head_to_tee) w;
          w2 = os_close (fst tee_to_leg1) w1;
          w3 = os_close (fst tee_to_leg1) w2;
          w4 = tee_loop (fst head_to_tee) (snd tee_to_leg1) (snd tee_to_leg2)
                 (replicate 1024 (uninit_byte w3)) w3;
          w5 = os_close (fst head_to_tee) w4;
          w6 = os_close (snd tee_to_leg1) w5;
          w7 = os_close (snd tee_to_leg1) w6
      in os_exit 0 w7)"

text \<open>\<^verbatim>\<open>for (int i = 0; i < 4; i++) { wait(NULL); }\<close>\<close>

function wait_loop :: "nat \<Rightarrow> world \<Rightarrow> world" where
  "wait_loop i w = (if i < 4 then wait_loop (Suc i) (snd (os_wait w)) else w)"
  by pat_completeness auto
termination
  by (relation "measure (\<lambda>(i, w). 4 - i)") auto

declare wait_loop.simps [simp del]

text \<open>
  \<open>doublePipe\<close> returns \<open>Some 0\<close> in the parent; in every other process, and on every
  fatal error, the call does not return (\<open>None\<close>).
\<close>

definition doublePipe ::
  "string option list \<Rightarrow> string option list \<Rightarrow> string option list \<Rightarrow> world \<Rightarrow> int option \<times> world" where
  "doublePipe cmd1 cmd2 cmd3 w =
     (case os_pipe w of
        (None, wa) \<Rightarrow> (None, os_exit EXIT_FAILURE (os_perror PIPE_ERR wa))
      | (Some head_to_tee, wa) \<Rightarrow>
     (case os_pipe wa of
        (None, wb) \<Rightarrow> (None, os_exit EXIT_FAILURE (os_perror PIPE_ERR wb))
      | (Some tee_to_leg1, wb) \<Rightarrow>
     (case os_pipe wb of
        (None, wc) \<Rightarrow> (None, os_exit EXIT_FAILURE (os_perror PIPE_ERR wc))
      | (Some tee_to_leg2, wc) \<Rightarrow>
     (let pipes_to_close = [head_to_tee, tee_to_leg1, tee_to_leg2] in
      case createAndExecuteProcess cmd1 (snd head_to_tee) STDOUT_FILENO pipes_to_close 3 wc of
        (None, w1) \<Rightarrow> (None, w1)
      | (Some _, w1) \<Rightarrow>
     (case os_fork w1 of (pid_tee, w2) \<Rightarrow>
        if pid_tee = - 1 then (None, os_exit EXIT_FAILURE (os_perror FORK_ERR w2))
        else if pid_tee = 0 then (None, tee head_to_tee tee_to_leg1 tee_to_leg2 w2)
        else
     (case createAndExecuteProcess cmd2 (fst tee_to_leg1) STDIN_FILENO pipes_to_close 3 w2 of
        (None, w3) \<Rightarrow> (None, w3)
      | (Some _, w3) \<Rightarrow>
     (case createAndExecuteProcess cmd3 (fst tee_to_leg2) STDIN_FILENO pipes_to_close 3 w3 of
        (None, w4) \<Rightarrow> (None, w4)
      | (Some _, w4) \<Rightarrow>
          (Some 0, wait_loop 0 (closePipes pipes_to_close 3 w4)))))))))"

section \<open>main\<close>

text \<open>
  The first two \<^verbatim>\<open>for\<close> statements: copy \<open>argv[i]\<close> to \<open>cmd[j]\<close> until a \<^verbatim>\<open>":"\<close> or the end
  of the arguments. The array has ten slots and the loop does not look at \<open>j\<close>: a store
  at \<open>j \<ge> 10\<close> is outside the array (\<open>Inl j\<close>).
\<close>

function copy_cmd ::
  "string list \<Rightarrow> nat \<Rightarrow> nat \<Rightarrow> string option list \<Rightarrow> nat + (nat \<times> nat \<times> string option list)" where
  "copy_cmd argv i j cmd =
     (if i < length argv then
        (if argv ! i = '':'' then Inr (i, j, cmd)
         else if j < length cmd then copy_cmd argv (Suc i) (Suc j) (cmd[j := Some (argv ! i)])
         else Inl j)
      else Inr (i, j, cmd))"
  by pat_completeness auto
termination
  by (relation "measure (\<lambda>(argv, i, j, cmd). length argv - i)") auto

declare copy_cmd.simps [simp del]

text \<open>The third loop copies everything that is left, separators included.\<close>

function copy_rest ::
  "string list \<Rightarrow> nat \<Rightarrow> nat \<Rightarrow> string option list \<Rightarrow> nat + (nat \<times> nat \<times> string option list)" where
  "copy_rest argv i j cmd =
     (if i < length argv then
        (if j < length cmd then copy_rest argv (Suc i) (Suc j) (cmd[j := Some (argv ! i)])
         else Inl j)
      else Inr (i, j, cmd))"
  by pat_completeness auto
termination
  by (relation "measure (\<lambda>(argv, i, j, cmd). length argv - i)") auto

declare copy_rest.simps [simp del]

text \<open>\<^verbatim>\<open>cmd[j] = NULL\<close> after a loop; the same ten slots.\<close>

definition store_null :: "string option list \<Rightarrow> nat \<Rightarrow> string option list option" where
  "store_null cmd j = (if j < length cmd then Some (cmd[j := None]) else None)"

definition USAGE :: string where
  "USAGE = ''Usage: dp <cmd1 arg...> : <cmd2 arg...> : <cmd3 arg....>\<newline>''"

definition ONLY_ONE :: string where
  "ONLY_ONE = ''Bad command syntax - only one command found\<newline>''"

definition ONLY_TWO :: string where
  "ONLY_TWO = ''Bad command syntax - only two commands found\<newline>''"

definition MISSING_THIRD :: string where
  "MISSING_THIRD = ''Bad command syntax - missing third command\<newline>''"

text \<open>
  \<open>argv\<close> is the whole argument vector, program name included, and \<open>argc\<close> its
  length. The three arrays are locals without an initialiser.
\<close>

definition main :: "string list \<Rightarrow> world \<Rightarrow> world" where
  "main argv w =
     (let argc = length argv; blank = replicate 10 (uninit w) in
      if argc = 1 then os_exit 1 (os_printf USAGE w)
      else
        case copy_cmd argv 1 0 blank of
          Inl j \<Rightarrow> undefined_behaviour (CopyLoopStore 1 j) w
        | Inr (i1, j1, a1) \<Rightarrow>
        (case store_null a1 j1 of
          None \<Rightarrow> undefined_behaviour (TerminatorStore 1 j1) w
        | Some cmd1 \<Rightarrow>
          if i1 = argc then os_exit 1 (os_printf ONLY_ONE w)
          else
        (case copy_cmd argv (Suc i1) 0 blank of
          Inl j \<Rightarrow> undefined_behaviour (CopyLoopStore 2 j) w
        | Inr (i2, j2, a2) \<Rightarrow>
        (case store_null a2 j2 of
          None \<Rightarrow> undefined_behaviour (TerminatorStore 2 j2) w
        | Some cmd2 \<Rightarrow>
          if i2 = argc then os_exit 1 (os_printf ONLY_TWO w)
          else
        (case copy_rest argv (Suc i2) 0 blank of
          Inl j \<Rightarrow> undefined_behaviour (CopyLoopStore 3 j) w
        | Inr (i3, j3, a3) \<Rightarrow>
        (case store_null a3 j3 of
          None \<Rightarrow> undefined_behaviour (TerminatorStore 3 j3) w
        | Some cmd3 \<Rightarrow>
          if j3 = 0 then os_exit 1 (os_printf MISSING_THIRD w)
          else
            (case doublePipe cmd1 cmd2 cmd3 w of
               (Some r, w') \<Rightarrow> os_exit r w'
             | (None, w') \<Rightarrow> w')))))))"

section \<open>Reading the ledger\<close>

text \<open>The descriptors of a list of pipes, in the order in which \<open>closePipes\<close> visits them.\<close>

definition endpoints :: "(int \<times> int) list \<Rightarrow> int list" where
  "endpoints pipes = concat (map (\<lambda>p. [fst p, snd p]) pipes)"

text \<open>The calls issued between two moments of a process.\<close>

definition since :: "world \<Rightarrow> world \<Rightarrow> event list" where
  "since w w' = drop (length (trace w)) (trace w')"

text \<open>Projections of a trace: what was offered to \<^verbatim>\<open>write\<close>, what \<^verbatim>\<open>read\<close> handed over,
  what the kernel accepted on a descriptor, and the arguments and answers of the other calls.\<close>

fun write_calls :: "event list \<Rightarrow> (int \<times> char list) list" where
  "write_calls [] = []"
| "write_calls (EvWrite fd d r # es) = (fd, d) # write_calls es"
| "write_calls (e # es) = write_calls es"

fun read_blocks :: "event list \<Rightarrow> char list list" where
  "read_blocks [] = []"
| "read_blocks (EvRead fd n r d # es) = (if 0 < r then d # read_blocks es else read_blocks es)"
| "read_blocks (e # es) = read_blocks es"


fun closed_fds :: "event list \<Rightarrow> int list" where
  "closed_fds [] = []"
| "closed_fds (EvClose fd # es) = fd # closed_fds es"
| "closed_fds (e # es) = closed_fds es"

fun forked :: "event list \<Rightarrow> int list" where
  "forked [] = []"
| "forked (EvFork r # es) = r # forked es"
| "forked (e # es) = forked es"

fun waited :: "event list \<Rightarrow> int list" where
  "waited [] = []"
| "waited (EvWait pid st # es) = pid # waited es"
| "waited (e # es) = waited es"

fun pipes_of :: "event list \<Rightarrow> (int \<times> int) list" where
  "pipes_of [] = []"
| "pipes_of (EvPipe (Some p) # es) = p # pipes_of es"
| "pipes_of (e # es) = pipes_of es"

text \<open>
  The contents of a ten-slot command array after \<open>main\<close> has stored the tokens
  \<open>toks\<close> and the terminating null in it; the slots behind keep what they held.
\<close>

definition filled :: "string option \<Rightarrow> string list \<Rightarrow> string option list" where
  "filled u toks = map Some toks @ None # replicate (9 - length toks) u"

text \<open>
  A process started from a shell: the three standard streams are open, it has no child,
  and the kernel grants three pipes; everything else is left to the test at hand.
\<close>

definition quiet :: world where
  "quiet = \<lparr>trace = [], fds = [0, 1, 2], children = [], status = Running,
     pipe_script = [True, True, True], fork_script = [], dup2_ok = True, exec_ok = True,
     inbox = [], rd_script = [], wr_script = [], wait_script = [],
     uninit = None, uninit_byte = CHR 0x00\<rparr>"

section \<open>The launch operation\<close>

lemma trace_closePipes:
  "trace (closePipes pipes (length pipes) w) = trace w @ map EvClose (endpoints pipes)"
  by (induction pipes arbitrary: w) (simp_all add: endpoints_def os_close_def emit_def)

lemma exec_ok_closePipes:
  "exec_ok (closePipes pipes (length pipes) w) = exec_ok w"
  by (induction pipes arbitrary: w) (simp_all add: os_close_def emit_def)

lemma os_execvp_trace:
  "cmd \<noteq> [] \<Longrightarrow>
   trace (snd (os_execvp cmd w)) = trace w @ [EvExecvp (hd cmd) (argv_of cmd)]"
  by (cases cmd; cases "hd cmd")
     (auto simp: os_execvp_def emit_def undefined_behaviour_def)

lemma os_execvp_returns:
  "cmd \<noteq> [] \<Longrightarrow>
   fst (os_execvp cmd w) = (if hd cmd = None \<or> exec_ok w then None else Some (- 1))"
  by (cases cmd; cases "hd cmd")
     (auto simp: os_execvp_def emit_def undefined_behaviour_def)

text \<open>
  C4. In the child of \<open>createAndExecuteProcess\<close> (\<^verbatim>\<open>fork\<close> answered \<open>0\<close>, \<^verbatim>\<open>dup2\<close>
  succeeded) the process never returns to the caller, and its calls after the fork are,
  in this order: the \<^verbatim>\<open>dup2\<close> of the source endpoint onto the target stream, one
  \<^verbatim>\<open>close\<close> for every endpoint of the list of pipes it was given (so also for the
  source endpoint, when it is one of them), and only then \<^verbatim>\<open>execvp\<close>. Nothing follows
  but the diagnostic and \<^verbatim>\<open>exit\<close> of a failed \<^verbatim>\<open>execvp\<close>.
\<close>

theorem launch_child_binds_then_closes_then_execs:
  assumes "fork_script w = 0 # fs" and "dup2_ok w" and "0 \<le> tgt" and "cmd \<noteq> []"
  shows "fst (createAndExecuteProcess cmd src tgt pipes (length pipes) w) = None \<and>
         trace (snd (createAndExecuteProcess cmd src tgt pipes (length pipes) w)) =
           trace w @ [EvFork 0, EvDup2 src tgt] @ map EvClose (endpoints pipes)
             @ [EvExecvp (hd cmd) (argv_of cmd)]
             @ (if hd cmd = None \<or> exec_ok w then []
                else [EvPerror EXEC_ERR, EvExit EXIT_FAILURE])"
proof -
  define w1 where "w1 = (emit (EvFork 0) w)\<lparr>children := [], fork_script := fs\<rparr>"
  define w2 where "w2 = (emit (EvDup2 src tgt) w1)\<lparr>fds := List.insert tgt (fds w1)\<rparr>"
  define w3 where "w3 = closePipes pipes (length pipes) w2"
  have f: "os_fork w = (0, w1)"
    using assms(1) by (simp add: os_fork_def w1_def)
  have d: "os_dup2 src tgt w1 = (tgt, w2)"
    using assms(2,3) by (simp add: os_dup2_def w1_def w2_def emit_def)
  have t3: "trace w3 = trace w @ [EvFork 0, EvDup2 src tgt] @ map EvClose (endpoints pipes)"
    by (simp add: w3_def trace_closePipes w2_def w1_def emit_def)
  have e3: "exec_ok w3 = exec_ok w"
    by (simp add: w3_def exec_ok_closePipes w2_def w1_def emit_def)
  have body: "createAndExecuteProcess cmd src tgt pipes (length pipes) w =
      (case os_execvp cmd w3 of
         (None, w4) \<Rightarrow> (None, w4)
       | (Some e, w4) \<Rightarrow>
           if e = - 1 then (None, os_exit EXIT_FAILURE (os_perror EXEC_ERR w4))
           else (Some (), w4))"
    using assms(3) by (simp add: createAndExecuteProcess_def f d w3_def)
  obtain r w4 where x: "os_execvp cmd w3 = (r, w4)"
    by (cases "os_execvp cmd w3")
  have r: "r = (if hd cmd = None \<or> exec_ok w then None else Some (- 1))"
    using os_execvp_returns [OF assms(4), of w3] x e3 by simp
  have t4: "trace w4 = trace w3 @ [EvExecvp (hd cmd) (argv_of cmd)]"
    using os_execvp_trace [OF assms(4), of w3] x by simp
  show ?thesis
    by (simp add: body x r t4 t3 os_exit_def os_perror_def emit_def)
qed

theorem launch_child_binds_then_closes_then_execs_witness:
  "fork_script (quiet\<lparr>fork_script := [0]\<rparr>) = 0 # [] \<and> dup2_ok (quiet\<lparr>fork_script := [0]\<rparr>)
   \<and> (0::int) \<le> 1 \<and> [Some ''ls'', None] \<noteq> []
   \<and> 4 \<in> set (endpoints [(3, 4), (5, 6), (7, 8)])
   \<and> trace (snd (createAndExecuteProcess [Some ''ls'', None] 4 1 [(3, 4), (5, 6), (7, 8)]
                   (length [(3::int, 4::int), (5, 6), (7, 8)]) (quiet\<lparr>fork_script := [0]\<rparr>))) =
       [EvFork 0, EvDup2 4 1, EvClose 3, EvClose 4, EvClose 5, EvClose 6, EvClose 7, EvClose 8,
        EvExecvp (Some ''ls'') [''ls'']]"
  using launch_child_binds_then_closes_then_execs
    [of "quiet\<lparr>fork_script := [0]\<rparr>" "[]" 1 "[Some ''ls'', None]" 4 "[(3, 4), (5, 6), (7, 8)]"]
  by (simp add: quiet_def endpoints_def argv_of_def)

text \<open>
  C7, as the code has it. In the parent (\<^verbatim>\<open>fork\<close> answered a pid) the function issues no
  further call, so it cannot block, and it returns to its caller; being \<^verbatim>\<open>void\<close> it
  returns no value: the pid stays in the local variable and is only known to the kernel
  as an unwaited child.
\<close>

theorem launch_parent_returns_at_once:
  "fork_script w = p # fs \<Longrightarrow> 0 < p \<Longrightarrow>
   createAndExecuteProcess cmd src tgt pipes n w =
     (Some (), w\<lparr>trace := trace w @ [EvFork p], children := children w @ [p],
                 fork_script := fs\<rparr>)"
  by (simp add: createAndExecuteProcess_def os_fork_def emit_def)

theorem launch_parent_returns_at_once_witness:
  "fork_script (quiet\<lparr>fork_script := [100]\<rparr>) = 100 # [] \<and> (0::int) < 100 \<and>
   createAndExecuteProcess [Some ''ls'', None] 4 1 [(3, 4), (5, 6), (7, 8)] 3
       (quiet\<lparr>fork_script := [100]\<rparr>) =
     (Some (), quiet\<lparr>trace := [EvFork 100], children := [100], fork_script := []\<rparr>)"
  using launch_parent_returns_at_once
    [of "quiet\<lparr>fork_script := [100]\<rparr>" 100 "[]" "[Some ''ls'', None]" 4 1
        "[(3, 4), (5, 6), (7, 8)]" 3]
  by (simp add: quiet_def)

text \<open>
  C7, as the claim has it: the result would be the child's pid. Two launches whose
  children have different pids hand the same result to the caller.
\<close>

theorem launch_result_is_not_the_pid:
  "fst (createAndExecuteProcess [Some ''ls'', None] 4 1 [(3, 4), (5, 6), (7, 8)] 3
         (quiet\<lparr>fork_script := [100]\<rparr>)) = Some ()
   \<and> fst (createAndExecuteProcess [Some ''ls'', None] 4 1 [(3, 4), (5, 6), (7, 8)] 3
         (quiet\<lparr>fork_script := [200]\<rparr>)) = Some ()"
  by (simp add: createAndExecuteProcess_def os_fork_def emit_def quiet_def)

section \<open>Shared facts about the ledger and the kernel\<close>

lemma write_calls_append: "write_calls (xs @ ys) = write_calls xs @ write_calls ys"
  by (induction xs rule: write_calls.induct) simp_all

lemma read_blocks_append: "read_blocks (xs @ ys) = read_blocks xs @ read_blocks ys"
  by (induction xs rule: read_blocks.induct) simp_all


lemma closed_fds_append: "closed_fds (xs @ ys) = closed_fds xs @ closed_fds ys"
  by (induction xs rule: closed_fds.induct) simp_all

lemma waited_append: "waited (xs @ ys) = waited xs @ waited ys"
  by (induction xs rule: waited.induct) simp_all

lemma pipes_of_append: "pipes_of (xs @ ys) = pipes_of xs @ pipes_of ys"
  by (induction xs rule: pipes_of.induct) simp_all

lemma since_append: "trace w' = trace w @ es \<Longrightarrow> since w w' = es"
  by (simp add: since_def)

lemma first_free_fresh:
  "card (set used \<inter> {n..}) \<le> k \<Longrightarrow> first_free k n used \<notin> set used"
proof (induction k arbitrary: n)
  case 0
  then have "set used \<inter> {n..} = {}" by simp
  then show ?case by auto
next
  case (Suc k)
  show ?case
  proof (cases "n \<in> set used")
    case True
    have "set used \<inter> {n + 1..} = (set used \<inter> {n..}) - {n}" by auto
    moreover have "n \<in> set used \<inter> {n..}" using True by simp
    ultimately have "card (set used \<inter> {n + 1..}) \<le> k"
      using Suc.prems by (simp add: card_Diff_singleton)
    then show ?thesis using True Suc.IH by simp
  next
    case False
    then show ?thesis by simp
  qed
qed

lemma lowest_free_fresh: "lowest_free used \<notin> set used"
proof -
  have "card (set used \<inter> {0..}) \<le> card (set used)"
    by (rule card_mono) auto
  also have "\<dots> \<le> length used" by (rule card_length)
  finally show ?thesis unfolding lowest_free_def by (rule first_free_fresh)
qed

lemma pipe_fds_fresh:
  "fst (pipe_fds used) \<notin> set used" "snd (pipe_fds used) \<notin> set used"
  "fst (pipe_fds used) \<noteq> snd (pipe_fds used)"
  using lowest_free_fresh [of used] lowest_free_fresh [of "lowest_free used # used"]
  by (auto simp: pipe_fds_def)

lemma pipe_fds_quiet:
  "pipe_fds [0, 1, 2] = (3, 4)" "pipe_fds [0, 1, 2, 3, 4] = (5, 6)"
  "pipe_fds [0, 1, 2, 3, 4, 5, 6] = (7, 8)"
  by (simp_all add: pipe_fds_def lowest_free_def)

section \<open>The two process paths through doublePipe\<close>

lemma tee_path:
  assumes "pipe_script w = True # True # True # ps" and "fork_script w = p # 0 # fs" and "0 < p"
  shows "doublePipe c1 c2 c3 w =
    (let h = pipe_fds (fds w);
         a = pipe_fds (fds w @ [fst h, snd h]);
         b = pipe_fds (fds w @ [fst h, snd h, fst a, snd a])
     in (None, tee h a b
          (w\<lparr>fds := fds w @ [fst h, snd h, fst a, snd a, fst b, snd b],
             pipe_script := ps,
             trace := trace w @ [EvPipe (Some h), EvPipe (Some a), EvPipe (Some b), EvFork p, EvFork 0],
             children := [], fork_script := fs\<rparr>)))"
  using assms
  by (simp add: doublePipe_def os_pipe_def createAndExecuteProcess_def os_fork_def emit_def Let_def)

lemma parent_path:
  assumes "pipe_script w = True # True # True # ps"
    and "fork_script w = p1 # p2 # p3 # p4 # fs" and "0 < p1" "0 < p2" "0 < p3" "0 < p4"
  shows "doublePipe c1 c2 c3 w =
    (let h = pipe_fds (fds w);
         a = pipe_fds (fds w @ [fst h, snd h]);
         b = pipe_fds (fds w @ [fst h, snd h, fst a, snd a])
     in (Some 0, wait_loop 0 (closePipes [h, a, b] 3
          (w\<lparr>fds := fds w @ [fst h, snd h, fst a, snd a, fst b, snd b],
             pipe_script := ps,
             trace := trace w @ [EvPipe (Some h), EvPipe (Some a), EvPipe (Some b),
                                   EvFork p1, EvFork p2, EvFork p3, EvFork p4],
             children := children w @ [p1, p2, p3, p4], fork_script := fs\<rparr>))))"
  using assms
  by (simp add: doublePipe_def os_pipe_def createAndExecuteProcess_def os_fork_def emit_def Let_def)

section \<open>Reaping\<close>

lemma os_wait_reaps:
  assumes "children w \<noteq> []"
  shows "\<exists>pid st. trace (snd (os_wait w)) = trace w @ [EvWait pid st] \<and>
           mset (children w) = add_mset pid (mset (children (snd (os_wait w)))) \<and>
           Suc (length (children (snd (os_wait w)))) = length (children w)"
proof -
  obtain c cs where cs: "children w = c # cs" using assms by (cases "children w") auto
  define i where "i = fst (case wait_script w of [] \<Rightarrow> (0, 0) | x # _ \<Rightarrow> x) mod length (c # cs)"
  have i: "i < length (c # cs)" unfolding i_def by (rule mod_less_divisor) simp
  have "mset (c # cs) = mset (take i (c # cs) @ (c # cs) ! i # drop (Suc i) (c # cs))"
    using i by (simp only: id_take_nth_drop [symmetric])
  then have m: "mset (c # cs) = add_mset ((c # cs) ! i) (mset (take i (c # cs) @ drop (Suc i) (c # cs)))"
    by simp
  have l: "Suc (length (take i (c # cs) @ drop (Suc i) (c # cs))) = length (c # cs)"
    using i by (simp add: min_def)
  show ?thesis
    using m l by (simp add: os_wait_def cs Let_def emit_def i_def)
qed

lemma wait_loop_reaps_all:
  "i \<le> 4 \<Longrightarrow> length (children w) = 4 - i \<Longrightarrow>
   \<exists>es. trace (wait_loop i w) = trace w @ es \<and> length es = 4 - i \<and>
        mset (waited es) = mset (children w) \<and> children (wait_loop i w) = [] \<and>
        length (waited es) = 4 - i"
proof (induction i w rule: wait_loop.induct)
  case (1 i w)
  show ?case
  proof (cases "i < 4")
    case True
    then have ne: "children w \<noteq> []" using "1.prems" by auto
    from os_wait_reaps [OF ne] obtain pid st where
      t: "trace (snd (os_wait w)) = trace w @ [EvWait pid st]"
      and m: "mset (children w) = add_mset pid (mset (children (snd (os_wait w))))"
      and l: "Suc (length (children (snd (os_wait w)))) = length (children w)"
      by blast
    have "length (children (snd (os_wait w))) = 4 - Suc i" using l "1.prems" by simp
    with "1.IH" [OF True] True obtain es where
      es: "trace (wait_loop (Suc i) (snd (os_wait w))) = trace (snd (os_wait w)) @ es"
        "length es = 4 - Suc i" "mset (waited es) = mset (children (snd (os_wait w)))"
        "children (wait_loop (Suc i) (snd (os_wait w))) = []" "length (waited es) = 4 - Suc i"
      by auto
    have unf: "wait_loop i w = wait_loop (Suc i) (snd (os_wait w))"
      using True by (subst wait_loop.simps) simp
    show ?thesis
      apply (rule exI [of _ "EvWait pid st # es"])
      using es t m True by (simp add: unf)
  next
    case False
    then show ?thesis using "1.prems" by (subst (1 2) wait_loop.simps) simp
  qed
qed

section \<open>The copy loop\<close>

lemma os_read_cases:
  assumes "os_read fd buffer 1024 w = (n, buffer', w1)"
  shows "\<exists>d. trace w1 = trace w @ [EvRead fd 1024 n d] \<and>
             (0 < n \<longrightarrow> take (nat n) buffer' = d \<and> inbox w = d @ inbox w1 \<and> length d = nat n) \<and>
             (n = 0 \<longrightarrow> inbox w = []) \<and>
             (n < 0 \<longrightarrow> (\<exists>rs. rd_script w = RdErr # rs)) \<and>
             rd_script w1 = tl (rd_script w) \<and> wr_script w1 = wr_script w"
proof (cases "\<exists>rs. rd_script w = RdErr # rs")
  case True
  then show ?thesis using assms by (auto simp: os_read_def emit_def)
next
  case False
  define k where "k = (case rd_script w of RdUpTo k # _ \<Rightarrow> max 1 k | _ \<Rightarrow> 1024)"
  define m where "m = min 1024 (min k (length (inbox w)))"
  have k: "1 \<le> k" by (auto simp: k_def split: list.splits rd.splits)
  have eq: "os_read fd buffer 1024 w =
      (int m, take m (inbox w) @ drop m buffer,
       (emit (EvRead fd 1024 (int m) (take m (inbox w))) w)
          \<lparr>inbox := drop m (inbox w), rd_script := tl (rd_script w)\<rparr>)"
    using False by (auto simp: os_read_def Let_def m_def k_def split: list.splits rd.splits)
  have m0: "m = 0 \<longrightarrow> inbox w = []" using k by (auto simp: m_def min_def split: if_splits)
  have ml: "m \<le> length (inbox w)" by (simp add: m_def)
  show ?thesis
    using assms m0 ml unfolding eq by (auto simp: emit_def)
qed

lemma os_write_trace:
  "trace (snd (os_write fd buffer n w)) =
     trace w @ [EvWrite fd (take n buffer) (fst (os_write fd buffer n w))]"
  by (simp add: os_write_def emit_def Let_def)



lemma tee_loop_extends: "\<exists>es. trace (tee_loop rfd wfd1 wfd2 buffer w) = trace w @ es"
proof (induction rfd wfd1 wfd2 buffer w rule: tee_loop.induct)
  case (1 rfd wfd1 wfd2 buffer w)
  obtain n buffer' w1 where r: "os_read rfd buffer 1024 w = (n, buffer', w1)"
    by (cases "os_read rfd buffer 1024 w")
  from os_read_cases [OF r] obtain d where t1: "trace w1 = trace w @ [EvRead rfd 1024 n d]"
    by blast
  show ?case
  proof (cases "0 < n")
    case True
    from "1.IH" [OF r [symmetric] refl True]
    show ?thesis
      using True r t1 by (subst tee_loop.simps) (auto simp: os_write_trace)
  next
    case False
    then show ?thesis using r t1 by (subst tee_loop.simps) simp
  qed
qed

lemma tee_loop_one_write_per_leg:
  "write_calls (since w (tee_loop rfd wfd1 wfd2 buffer w)) =
     concat (map (\<lambda>blk. [(wfd1, blk), (wfd2, blk)])
       (read_blocks (since w (tee_loop rfd wfd1 wfd2 buffer w))))
   \<and> closed_fds (since w (tee_loop rfd wfd1 wfd2 buffer w)) = []
   \<and> pipes_of (since w (tee_loop rfd wfd1 wfd2 buffer w)) = []"
proof (induction rfd wfd1 wfd2 buffer w rule: tee_loop.induct)
  case (1 rfd wfd1 wfd2 buffer w)
  obtain n buffer' w1 where r: "os_read rfd buffer 1024 w = (n, buffer', w1)"
    by (cases "os_read rfd buffer 1024 w")
  from os_read_cases [OF r] obtain d where t1: "trace w1 = trace w @ [EvRead rfd 1024 n d]"
    and d: "0 < n \<longrightarrow> take (nat n) buffer' = d"
    by blast
  show ?case
  proof (cases "0 < n")
    case True
    define w2 where
      "w2 = snd (os_write wfd2 buffer' (nat n) (snd (os_write wfd1 buffer' (nat n) w1)))"
    obtain r1 r2 where
      t2: "trace w2 = trace w @ [EvRead rfd 1024 n d, EvWrite wfd1 d r1, EvWrite wfd2 d r2]"
      using d True by (simp add: w2_def os_write_trace t1)
    have unf: "tee_loop rfd wfd1 wfd2 buffer w = tee_loop rfd wfd1 wfd2 buffer' w2"
      using True r by (subst tee_loop.simps) (simp add: w2_def)
    obtain es where es: "trace (tee_loop rfd wfd1 wfd2 buffer' w2) = trace w2 @ es"
      using tee_loop_extends by blast
    have ih: "write_calls es = concat (map (\<lambda>blk. [(wfd1, blk), (wfd2, blk)]) (read_blocks es))
              \<and> closed_fds es = [] \<and> pipes_of es = []"
      using "1.IH" [OF r [symmetric] refl True] since_append [OF es] by (simp add: w2_def)
    have "since w (tee_loop rfd wfd1 wfd2 buffer w) =
            [EvRead rfd 1024 n d, EvWrite wfd1 d r1, EvWrite wfd2 d r2] @ es"
      by (rule since_append) (simp add: unf es t2)
    then show ?thesis using ih True by simp
  next
    case False
    have "tee_loop rfd wfd1 wfd2 buffer w = w1"
      using False r by (subst tee_loop.simps) simp
    then have "since w (tee_loop rfd wfd1 wfd2 buffer w) = [EvRead rfd 1024 n d]"
      using t1 by (simp add: since_append)
    then show ?thesis using False by simp
  qed
qed


section \<open>The tee process\<close>

lemma tee_trace:
  fixes h a b :: "int \<times> int" and w :: world
  defines "w3 \<equiv> os_close (fst a) (os_close (fst a) (os_close (snd h) w))"
  defines "es \<equiv> since w3 (tee_loop (fst h) (snd a) (snd b) (replicate 1024 (uninit_byte w3)) w3)"
  shows "trace (tee h a b w) =
           trace w @ [EvClose (snd h), EvClose (fst a), EvClose (fst a)] @ es
             @ [EvClose (fst h), EvClose (snd a), EvClose (snd a), EvExit 0]"
proof -
  define w4 where "w4 = tee_loop (fst h) (snd a) (snd b) (replicate 1024 (uninit_byte w3)) w3"
  obtain xs where xs: "trace w4 = trace w3 @ xs"
    unfolding w4_def using tee_loop_extends by blast
  have e: "es = xs" unfolding es_def w4_def [symmetric] by (rule since_append) (rule xs)
  have t3: "trace w3 = trace w @ [EvClose (snd h), EvClose (fst a), EvClose (fst a)]"
    by (simp add: w3_def os_close_def emit_def)
  have "tee h a b w = os_exit 0 (os_close (snd a) (os_close (snd a) (os_close (fst h) w4)))"
    by (simp add: tee_def Let_def w3_def w4_def)
  then have "trace (tee h a b w) =
      trace w4 @ [EvClose (fst h), EvClose (snd a), EvClose (snd a), EvExit 0]"
    by (simp add: os_close_def emit_def os_exit_def)
  then show ?thesis
    unfolding e by (simp add: xs t3)
qed

lemma since_tee:
  "since w (tee h a b w) =
     [EvClose (snd h), EvClose (fst a), EvClose (fst a)]
       @ since (os_close (fst a) (os_close (fst a) (os_close (snd h) w)))
           (tee_loop (fst h) (snd a) (snd b)
              (replicate 1024 (uninit_byte (os_close (fst a) (os_close (fst a) (os_close (snd h) w)))))
              (os_close (fst a) (os_close (fst a) (os_close (snd h) w))))
       @ [EvClose (fst h), EvClose (snd a), EvClose (snd a), EvExit 0]"
  by (rule since_append) (simp add: tee_trace)


text \<open>
  C2, as the code has it. In a run in which no \<^verbatim>\<open>write\<close> fails, the \<^verbatim>\<open>write\<close> calls
  of the tee process are exactly these: for every block that a \<^verbatim>\<open>read\<close> handed over (a
  positive return value), one call that offers this block on the write endpoint of the
  tee-to-leg1 pipe, followed by one call that offers the same block on the write endpoint
  of the tee-to-leg2 pipe. No block is offered a second time and no part of a block is
  offered again: the return value of \<^verbatim>\<open>write\<close> is not looked at, so a short write is
  not retried.
\<close>

theorem relay_offers_each_block_once_to_each_leg:
  assumes "WrErr \<notin> set (wr_script w)"
  shows "write_calls (since w (tee head_to_tee tee_to_leg1 tee_to_leg2 w)) =
     concat (map (\<lambda>blk. [(snd tee_to_leg1, blk), (snd tee_to_leg2, blk)])
       (read_blocks (since w (tee head_to_tee tee_to_leg1 tee_to_leg2 w))))"
  by (simp add: since_tee write_calls_append read_blocks_append tee_loop_one_write_per_leg)

theorem relay_offers_each_block_once_to_each_leg_witness:
  "WrErr \<notin> set (wr_script (quiet\<lparr>inbox := ''ab'', wr_script := [WrShort 1]\<rparr>))
   \<and> write_calls (since (quiet\<lparr>inbox := ''ab'', wr_script := [WrShort 1]\<rparr>)
         (tee (3, 4) (5, 6) (7, 8) (quiet\<lparr>inbox := ''ab'', wr_script := [WrShort 1]\<rparr>))) =
       concat (map (\<lambda>blk. [(6, blk), (8, blk)])
         (read_blocks (since (quiet\<lparr>inbox := ''ab'', wr_script := [WrShort 1]\<rparr>)
           (tee (3, 4) (5, 6) (7, 8) (quiet\<lparr>inbox := ''ab'', wr_script := [WrShort 1]\<rparr>)))))"
  using relay_offers_each_block_once_to_each_leg
    [of "quiet\<lparr>inbox := ''ab'', wr_script := [WrShort 1]\<rparr>" "(3, 4)" "(5, 6)" "(7, 8)"]
  by (simp add: quiet_def)

text \<open>
  C2, as the claim has it: a short write would be retried until the block is drained. Here
  the head delivers \<^verbatim>\<open>ab\<close> and the kernel takes one byte of the first \<^verbatim>\<open>write\<close>. The
  whole run of the tee process: the call on descriptor \<open>6\<close> (leg1) returns \<open>1\<close>, the next
  call is the one on descriptor \<open>8\<close> (leg2), then the next \<^verbatim>\<open>read\<close>; the byte \<^verbatim>\<open>b\<close> is
  never offered to leg1 again.
\<close>

theorem short_write_to_leg1_is_not_retried:
  "trace (snd (doublePipe [Some ''ls'', None] [Some ''cat'', None] [Some ''wc'', None]
      (quiet\<lparr>fork_script := [100, 0], inbox := ''ab'', wr_script := [WrShort 1]\<rparr>))) =
   [EvPipe (Some (3, 4)), EvPipe (Some (5, 6)), EvPipe (Some (7, 8)), EvFork 100, EvFork 0,
    EvClose 4, EvClose 5, EvClose 5,
    EvRead 3 1024 2 ''ab'', EvWrite 6 ''ab'' 1, EvWrite 8 ''ab'' 2, EvRead 3 1024 0 [],
    EvClose 3, EvClose 6, EvClose 6, EvExit 0]"
proof -
  have "doublePipe [Some ''ls'', None] [Some ''cat'', None] [Some ''wc'', None]
      (quiet\<lparr>fork_script := [100, 0], inbox := ''ab'', wr_script := [WrShort 1]\<rparr>) =
    (None, tee (3, 4) (5, 6) (7, 8)
      (quiet\<lparr>fork_script := [], inbox := ''ab'', wr_script := [WrShort 1],
         fds := [0, 1, 2, 3, 4, 5, 6, 7, 8], pipe_script := [],
         trace := [EvPipe (Some (3, 4)), EvPipe (Some (5, 6)), EvPipe (Some (7, 8)),
                   EvFork 100, EvFork 0]\<rparr>))"
    by (subst tee_path [where p = 100 and fs = "[]" and ps = "[]"])
       (simp_all add: quiet_def pipe_fds_quiet Let_def)
  then show ?thesis
    apply (simp add: tee_def Let_def os_close_def emit_def os_exit_def quiet_def)
    apply (subst tee_loop.simps)
    apply (simp add: os_read_def os_write_def emit_def Let_def)
    apply (subst tee_loop.simps)
    apply (simp add: os_read_def os_write_def emit_def Let_def)
    done
qed

lemma relay_trace:
  assumes "pipe_script w = True # True # True # ps" and "fork_script w = p # 0 # fs" and "0 < p"
  defines "h \<equiv> pipe_fds (fds w)"
  defines "a \<equiv> pipe_fds (fds w @ [fst h, snd h])"
  defines "b \<equiv> pipe_fds (fds w @ [fst h, snd h, fst a, snd a])"
  shows "\<exists>w2. since w (snd (doublePipe c1 c2 c3 w)) =
           [EvPipe (Some h), EvPipe (Some a), EvPipe (Some b), EvFork p, EvFork 0]
             @ since w2 (tee h a b w2)
         \<and> fst (doublePipe c1 c2 c3 w) = None
         \<and> snd (doublePipe c1 c2 c3 w) = tee h a b w2
         \<and> inbox w2 = inbox w \<and> rd_script w2 = rd_script w \<and> wr_script w2 = wr_script w"
proof -
  define w2 where "w2 = w\<lparr>fds := fds w @ [fst h, snd h, fst a, snd a, fst b, snd b],
             pipe_script := ps,
             trace := trace w @ [EvPipe (Some h), EvPipe (Some a), EvPipe (Some b), EvFork p, EvFork 0],
             children := [], fork_script := fs\<rparr>"
  have dp: "doublePipe c1 c2 c3 w = (None, tee h a b w2)"
    using tee_path [OF assms(1-3), of c1 c2 c3] by (simp add: Let_def h_def a_def b_def w2_def)
  have t2: "trace w2 = trace w @ [EvPipe (Some h), EvPipe (Some a), EvPipe (Some b), EvFork p, EvFork 0]"
    by (simp add: w2_def)
  have "trace (snd (doublePipe c1 c2 c3 w)) =
      trace w @ [EvPipe (Some h), EvPipe (Some a), EvPipe (Some b), EvFork p, EvFork 0]
        @ since w2 (tee h a b w2)"
    by (simp add: dp tee_trace since_tee t2)
  then have "since w (snd (doublePipe c1 c2 c3 w)) =
      [EvPipe (Some h), EvPipe (Some a), EvPipe (Some b), EvFork p, EvFork 0]
        @ since w2 (tee h a b w2)"
    by (rule since_append)
  moreover have "inbox w2 = inbox w" "rd_script w2 = rd_script w" "wr_script w2 = wr_script w"
    by (simp_all add: w2_def)
  ultimately show ?thesis using dp by auto
qed

text \<open>
  C1, what the tee process does with the six endpoints. With \<open>h\<close>, \<open>a\<close>, \<open>b\<close> the
  head-to-tee, tee-to-leg1 and tee-to-leg2 pipes, its \<^verbatim>\<open>close\<close> calls are, in order:
  the write endpoint of \<open>h\<close>, the read endpoint of \<open>a\<close> twice, and after the loop the
  read endpoint of \<open>h\<close> and the write endpoint of \<open>a\<close> twice. Neither endpoint of \<open>b\<close>
  is ever passed to \<^verbatim>\<open>close\<close>; the claim has each of the six closed exactly once.
\<close>

theorem relay_closes_leg1_twice_and_leg2_never:
  assumes "pipe_script w = True # True # True # ps" and "fork_script w = p # 0 # fs" and "0 < p"
  shows "\<exists>h a b. pipes_of (since w (snd (doublePipe cmd1 cmd2 cmd3 w))) = [h, a, b]
           \<and> closed_fds (since w (snd (doublePipe cmd1 cmd2 cmd3 w))) =
               [snd h, fst a, fst a, fst h, snd a, snd a]
           \<and> fst b \<notin> set (closed_fds (since w (snd (doublePipe cmd1 cmd2 cmd3 w))))
           \<and> snd b \<notin> set (closed_fds (since w (snd (doublePipe cmd1 cmd2 cmd3 w))))"
proof -
  define h where "h = pipe_fds (fds w)"
  define a where "a = pipe_fds (fds w @ [fst h, snd h])"
  define b where "b = pipe_fds (fds w @ [fst h, snd h, fst a, snd a])"
  from relay_trace [OF assms, of cmd1 cmd2 cmd3] obtain w2 where
    tr: "since w (snd (doublePipe cmd1 cmd2 cmd3 w)) =
           [EvPipe (Some h), EvPipe (Some a), EvPipe (Some b), EvFork p, EvFork 0]
             @ since w2 (tee h a b w2)"
    unfolding h_def a_def b_def by blast
  have p: "pipes_of (since w (snd (doublePipe cmd1 cmd2 cmd3 w))) = [h, a, b]"
    by (simp add: tr since_tee pipes_of_append tee_loop_one_write_per_leg)
  have c: "closed_fds (since w (snd (doublePipe cmd1 cmd2 cmd3 w))) =
             [snd h, fst a, fst a, fst h, snd a, snd a]"
    by (simp add: tr since_tee closed_fds_append tee_loop_one_write_per_leg)
  have "fst b \<notin> set (fds w @ [fst h, snd h, fst a, snd a])"
       "snd b \<notin> set (fds w @ [fst h, snd h, fst a, snd a])"
    unfolding b_def by (rule pipe_fds_fresh)+
  then have "fst b \<notin> set [snd h, fst a, fst a, fst h, snd a, snd a]"
            "snd b \<notin> set [snd h, fst a, fst a, fst h, snd a, snd a]"
    by auto
  then show ?thesis using p c by auto
qed

theorem relay_closes_leg1_twice_and_leg2_never_witness:
  "pipe_script (quiet\<lparr>fork_script := [100, 0], inbox := ''hello''\<rparr>) = True # True # True # []
   \<and> fork_script (quiet\<lparr>fork_script := [100, 0], inbox := ''hello''\<rparr>) = 100 # 0 # []
   \<and> (\<exists>h a b.
         pipes_of (since (quiet\<lparr>fork_script := [100, 0], inbox := ''hello''\<rparr>)
           (snd (doublePipe [Some ''ls'', None] [Some ''cat'', None] [Some ''wc'', None]
              (quiet\<lparr>fork_script := [100, 0], inbox := ''hello''\<rparr>)))) = [h, a, b]
       \<and> closed_fds (since (quiet\<lparr>fork_script := [100, 0], inbox := ''hello''\<rparr>)
           (snd (doublePipe [Some ''ls'', None] [Some ''cat'', None] [Some ''wc'', None]
              (quiet\<lparr>fork_script := [100, 0], inbox := ''hello''\<rparr>)))) =
            [snd h, fst a, fst a, fst h, snd a, snd a]
       \<and> fst b \<notin> set (closed_fds (since (quiet\<lparr>fork_script := [100, 0], inbox := ''hello''\<rparr>)
           (snd (doublePipe [Some ''ls'', None] [Some ''cat'', None] [Some ''wc'', None]
              (quiet\<lparr>fork_script := [100, 0], inbox := ''hello''\<rparr>)))))
       \<and> snd b \<notin> set (closed_fds (since (quiet\<lparr>fork_script := [100, 0], inbox := ''hello''\<rparr>)
           (snd (doublePipe [Some ''ls'', None] [Some ''cat'', None] [Some ''wc'', None]
              (quiet\<lparr>fork_script := [100, 0], inbox := ''hello''\<rparr>))))))"
  using relay_closes_leg1_twice_and_leg2_never
    [of "quiet\<lparr>fork_script := [100, 0], inbox := ''hello''\<rparr>" "[]" 100 "[]"
        "[Some ''ls'', None]" "[Some ''cat'', None]" "[Some ''wc'', None]"]
  by (simp add: quiet_def)




section \<open>The supervisor\<close>

lemma forked_append: "forked (xs @ ys) = forked xs @ forked ys"
  by (induction xs rule: forked.induct) simp_all

text \<open>
  C5. In the parent (three pipes granted, all four \<^verbatim>\<open>fork\<close> calls answered with a pid, no
  child before) \<open>doublePipe\<close> returns \<open>0\<close>. Its calls are the three \<^verbatim>\<open>pipe\<close> calls,
  the four \<^verbatim>\<open>fork\<close> calls, one \<^verbatim>\<open>close\<close> for each of the six endpoints, and then
  exactly four calls, all of them \<^verbatim>\<open>wait\<close>. The pids these four calls reap are the four
  children, each once, and no unwaited child is left. The statuses the children end with
  are whatever the kernel reports (\<open>wait_script\<close> is arbitrary); the result is \<open>0\<close> all
  the same.
\<close>

theorem supervisor_waits_four_times_and_returns_zero:
  assumes "pipe_script w = True # True # True # ps"
    and "fork_script w = p1 # p2 # p3 # p4 # fs" and "0 < p1" and "0 < p2" and "0 < p3" and "0 < p4"
    and "children w = []"
  shows "fst (doublePipe cmd1 cmd2 cmd3 w) = Some 0
     \<and> (\<exists>h a b ws. since w (snd (doublePipe cmd1 cmd2 cmd3 w)) =
            [EvPipe (Some h), EvPipe (Some a), EvPipe (Some b),
             EvFork p1, EvFork p2, EvFork p3, EvFork p4]
              @ map EvClose (endpoints [h, a, b]) @ ws
          \<and> length ws = 4 \<and> length (waited ws) = 4 \<and> mset (waited ws) = mset [p1, p2, p3, p4])
     \<and> children (snd (doublePipe cmd1 cmd2 cmd3 w)) = []"
proof -
  define h where "h = pipe_fds (fds w)"
  define a where "a = pipe_fds (fds w @ [fst h, snd h])"
  define b where "b = pipe_fds (fds w @ [fst h, snd h, fst a, snd a])"
  define w4 where "w4 = w\<lparr>fds := fds w @ [fst h, snd h, fst a, snd a, fst b, snd b],
             pipe_script := ps,
             trace := trace w @ [EvPipe (Some h), EvPipe (Some a), EvPipe (Some b),
                                   EvFork p1, EvFork p2, EvFork p3, EvFork p4],
             children := children w @ [p1, p2, p3, p4], fork_script := fs\<rparr>"
  define w5 where "w5 = closePipes [h, a, b] (length [h, a, b]) w4"
  have dp: "doublePipe cmd1 cmd2 cmd3 w = (Some 0, wait_loop 0 w5)"
    using parent_path [OF assms(1-6), of cmd1 cmd2 cmd3]
    by (simp add: Let_def h_def a_def b_def w4_def w5_def numeral_3_eq_3)
  have t5: "trace w5 = trace w @ [EvPipe (Some h), EvPipe (Some a), EvPipe (Some b),
                EvFork p1, EvFork p2, EvFork p3, EvFork p4] @ map EvClose (endpoints [h, a, b])"
    unfolding w5_def trace_closePipes by (simp add: w4_def)
  have c5: "children w5 = [p1, p2, p3, p4]"
    using assms(7) by (simp add: w5_def w4_def os_close_def emit_def)
  from wait_loop_reaps_all [of 0 w5] c5 obtain ws where
    ws: "trace (wait_loop 0 w5) = trace w5 @ ws" "length ws = 4"
      "mset (waited ws) = mset (children w5)" "children (wait_loop 0 w5) = []"
      "length (waited ws) = 4"
    by auto
  have "since w (snd (doublePipe cmd1 cmd2 cmd3 w)) =
          [EvPipe (Some h), EvPipe (Some a), EvPipe (Some b),
             EvFork p1, EvFork p2, EvFork p3, EvFork p4]
              @ map EvClose (endpoints [h, a, b]) @ ws"
    by (rule since_append) (simp add: dp ws(1) t5)
  then show ?thesis
    using ws c5 dp by auto
qed

theorem supervisor_waits_four_times_and_returns_zero_witness:
  "children (quiet\<lparr>fork_script := [100, 101, 102, 103], wait_script := [(2, 1), (0, 127)]\<rparr>) = []
   \<and> fst (doublePipe [Some ''ls'', None] [Some ''cat'', None] [Some ''wc'', None]
        (quiet\<lparr>fork_script := [100, 101, 102, 103], wait_script := [(2, 1), (0, 127)]\<rparr>)) = Some 0
   \<and> children (snd (doublePipe [Some ''ls'', None] [Some ''cat'', None] [Some ''wc'', None]
        (quiet\<lparr>fork_script := [100, 101, 102, 103], wait_script := [(2, 1), (0, 127)]\<rparr>))) = []"
  using supervisor_waits_four_times_and_returns_zero
    [of "quiet\<lparr>fork_script := [100, 101, 102, 103], wait_script := [(2, 1), (0, 127)]\<rparr>" "[]"
        100 101 102 103 "[]" "[Some ''ls'', None]" "[Some ''cat'', None]" "[Some ''wc'', None]"]
  by (simp add: quiet_def)

section \<open>The parser\<close>

lemma copy_cmd_tokens:
  "j \<le> length cmd \<Longrightarrow>
   copy_cmd argv i j cmd =
     (let toks = takeWhile (\<lambda>s. s \<noteq> '':'') (drop i argv) in
      if j + length toks \<le> length cmd
      then Inr (i + length toks, j + length toks,
                take j cmd @ map Some toks @ drop (j + length toks) cmd)
      else Inl (length cmd))"
proof (induction argv i j cmd rule: copy_cmd.induct)
  case (1 argv i j cmd)
  show ?case
  proof (cases "i < length argv")
    case False
    then show ?thesis using "1.prems" by (subst copy_cmd.simps) simp
  next
    case True
    then have d: "drop i argv = argv ! i # drop (Suc i) argv"
      by (simp add: Cons_nth_drop_Suc)
    show ?thesis
    proof (cases "argv ! i = '':''")
      case True
      then show ?thesis using \<open>i < length argv\<close> "1.prems" d
        by (subst copy_cmd.simps) simp
    next
      case ne: False
      show ?thesis
      proof (cases "j < length cmd")
        case True
        have ih: "copy_cmd argv (Suc i) (Suc j) (cmd[j := Some (argv ! i)]) =
           (let toks = takeWhile (\<lambda>s. s \<noteq> '':'') (drop (Suc i) argv) in
            if Suc j + length toks \<le> length cmd
            then Inr (Suc i + length toks, Suc j + length toks,
                      take (Suc j) (cmd[j := Some (argv ! i)]) @ map Some toks
                        @ drop (Suc j + length toks) (cmd[j := Some (argv ! i)]))
            else Inl (length cmd))"
          using "1.IH" [OF \<open>i < length argv\<close> ne True] True by (simp add: Let_def)
        have tk: "take (Suc j) (cmd[j := Some (argv ! i)]) = take j cmd @ [Some (argv ! i)]"
          using True by (simp add: take_Suc_conv_app_nth)
        show ?thesis
          using \<open>i < length argv\<close> ne True
          by (subst copy_cmd.simps) (simp add: ih d tk Let_def)
      next
        case False
        then show ?thesis using \<open>i < length argv\<close> ne "1.prems" d
          by (subst copy_cmd.simps) (simp add: Let_def)
      qed
    qed
  qed
qed

lemma copy_rest_tokens:
  "j \<le> length cmd \<Longrightarrow>
   copy_rest argv i j cmd =
     (let toks = drop i argv in
      if j + length toks \<le> length cmd
      then Inr (i + length toks, j + length toks,
                take j cmd @ map Some toks @ drop (j + length toks) cmd)
      else Inl (length cmd))"
proof (induction argv i j cmd rule: copy_rest.induct)
  case (1 argv i j cmd)
  show ?case
  proof (cases "i < length argv")
    case False
    then show ?thesis using "1.prems" by (subst copy_rest.simps) simp
  next
    case True
    then have d: "drop i argv = argv ! i # drop (Suc i) argv"
      by (simp add: Cons_nth_drop_Suc)
    show ?thesis
    proof (cases "j < length cmd")
      case jl: True
      have ih: "copy_rest argv (Suc i) (Suc j) (cmd[j := Some (argv ! i)]) =
         (let toks = drop (Suc i) argv in
          if Suc j + length toks \<le> length cmd
          then Inr (Suc i + length toks, Suc j + length toks,
                    take (Suc j) (cmd[j := Some (argv ! i)]) @ map Some toks
                      @ drop (Suc j + length toks) (cmd[j := Some (argv ! i)]))
          else Inl (length cmd))"
        using "1.IH" [OF True jl] jl True by (simp add: Let_def)
      have tk: "take (Suc j) (cmd[j := Some (argv ! i)]) = take j cmd @ [Some (argv ! i)]"
        using jl by (simp add: take_Suc_conv_app_nth)
      show ?thesis
        using True jl
        by (subst copy_rest.simps) (simp add: ih d tk Let_def)
    next
      case False
      then show ?thesis using True "1.prems" d
        by (subst copy_rest.simps) (simp add: Let_def)
    qed
  qed
qed

lemma takeWhile_command:
  "'':'' \<notin> set c \<Longrightarrow> r = [] \<or> hd r = '':'' \<Longrightarrow> takeWhile (\<lambda>s. s \<noteq> '':'') (c @ r) = c"
  by (cases r) (auto simp: takeWhile_append2 takeWhile_tail)

lemma first_command:
  assumes "'':'' \<notin> set c" and "r = [] \<or> hd r = '':''"
  shows "copy_cmd (prog # c @ r) 1 0 (replicate 10 u) =
     (if length c \<le> 10
      then Inr (1 + length c, length c, map Some c @ replicate (10 - length c) u)
      else Inl 10)"
  using takeWhile_command [OF assms]
  by (simp add: copy_cmd_tokens Let_def)

lemma next_command:
  assumes "'':'' \<notin> set c" and "r = [] \<or> hd r = '':''" and "length pre = n"
  shows "copy_cmd (pre @ c @ r) n 0 (replicate 10 u) =
     (if length c \<le> 10
      then Inr (n + length c, length c, map Some c @ replicate (10 - length c) u)
      else Inl 10)"
  using takeWhile_command [OF assms(1,2)] assms(3)
  by (simp add: copy_cmd_tokens Let_def)

lemma last_command:
  assumes "length pre = n"
  shows "copy_rest (pre @ c) n 0 (replicate 10 u) =
     (if length c \<le> 10
      then Inr (n + length c, length c, map Some c @ replicate (10 - length c) u)
      else Inl 10)"
  using assms by (simp add: copy_rest_tokens Let_def)

lemma store_null_filled:
  "store_null (map Some c @ replicate (10 - length c) u) (length c) =
     (if length c < 10 then Some (filled u c) else None)"
proof (cases "length c < 10")
  case True
  then have "10 - length c = Suc (9 - length c)" by simp
  then show ?thesis using True
    by (simp add: store_null_def filled_def list_update_append)
next
  case False
  then show ?thesis by (simp add: store_null_def)
qed

lemma main_no_arguments: "main [prog] w = os_exit 1 (os_printf USAGE w)"
  by (simp add: main_def)

lemma main_one_command:
  assumes "'':'' \<notin> set c" and "c \<noteq> []" and "length c \<le> 9"
  shows "main (prog # c) w = os_exit 1 (os_printf ONLY_ONE w)"
proof -
  have 1: "copy_cmd (prog # c) (Suc 0) 0 (replicate 10 (uninit w)) =
      Inr (Suc (length c), length c, map Some c @ replicate (10 - length c) (uninit w))"
    using first_command [OF assms(1), of "[]" prog "uninit w"] assms(3) by simp
  show ?thesis
    using assms(2,3) by (simp add: main_def Let_def 1 store_null_filled)
qed

lemma main_two_commands:
  assumes "'':'' \<notin> set c1" and "'':'' \<notin> set c2" and "length c1 \<le> 9" and "length c2 \<le> 9"
  shows "main (prog # c1 @ '':'' # c2) w = os_exit 1 (os_printf ONLY_TWO w)"
proof -
  have 1: "copy_cmd (prog # c1 @ '':'' # c2) (Suc 0) 0 (replicate 10 (uninit w)) =
      Inr (Suc (length c1), length c1, map Some c1 @ replicate (10 - length c1) (uninit w))"
    using first_command [OF assms(1), of "'':'' # c2" prog "uninit w"] assms(3) by simp
  have 2: "copy_cmd (prog # c1 @ '':'' # c2) (Suc (Suc (length c1))) 0 (replicate 10 (uninit w)) =
      Inr (Suc (Suc (length c1)) + length c2, length c2,
           map Some c2 @ replicate (10 - length c2) (uninit w))"
    using next_command [OF assms(2), of "[]" "prog # c1 @ ['':'']" "Suc (Suc (length c1))" "uninit w"]
      assms(4) by simp
  show ?thesis
    using assms(3,4) by (simp add: main_def Let_def 1 2 store_null_filled)
qed

lemma main_no_third_command:
  assumes "'':'' \<notin> set c1" and "'':'' \<notin> set c2" and "length c1 \<le> 9" and "length c2 \<le> 9"
  shows "main (prog # c1 @ '':'' # c2 @ ['':'']) w = os_exit 1 (os_printf MISSING_THIRD w)"
proof -
  let ?argv = "prog # c1 @ '':'' # c2 @ ['':'']"
  have 1: "copy_cmd ?argv (Suc 0) 0 (replicate 10 (uninit w)) =
      Inr (Suc (length c1), length c1, map Some c1 @ replicate (10 - length c1) (uninit w))"
    using first_command [OF assms(1), of "'':'' # c2 @ ['':'']" prog "uninit w"] assms(3) by simp
  have 2: "copy_cmd ?argv (Suc (Suc (length c1))) 0 (replicate 10 (uninit w)) =
      Inr (Suc (Suc (length c1)) + length c2, length c2,
           map Some c2 @ replicate (10 - length c2) (uninit w))"
    using next_command [OF assms(2), of "['':'']" "prog # c1 @ ['':'']" "Suc (Suc (length c1))" "uninit w"]
      assms(4) by simp
  have 3: "copy_rest ?argv (Suc (Suc (Suc (length c1 + length c2)))) 0 (replicate 10 (uninit w)) =
      Inr (Suc (Suc (Suc (length c1 + length c2))), 0, replicate 10 (uninit w))"
    using last_command [of ?argv "Suc (Suc (Suc (length c1 + length c2)))" "[]" "uninit w"] by simp
  show ?thesis
    using assms(3,4) by (simp add: main_def Let_def 1 2 3 store_null_filled store_null_def)
qed

lemma main_three_commands:
  assumes "'':'' \<notin> set c1" and "'':'' \<notin> set c2"
    and "length c1 \<le> 9" and "length c2 \<le> 9" and "length c3 \<le> 9" and "c3 \<noteq> []"
  shows "main (prog # c1 @ '':'' # c2 @ '':'' # c3) w =
     (case doublePipe (filled (uninit w) c1) (filled (uninit w) c2) (filled (uninit w) c3) w of
        (Some r, w') \<Rightarrow> os_exit r w'
      | (None, w') \<Rightarrow> w')"
proof -
  let ?argv = "prog # c1 @ '':'' # c2 @ '':'' # c3"
  have 1: "copy_cmd ?argv (Suc 0) 0 (replicate 10 (uninit w)) =
      Inr (Suc (length c1), length c1, map Some c1 @ replicate (10 - length c1) (uninit w))"
    using first_command [OF assms(1), of "'':'' # c2 @ '':'' # c3" prog "uninit w"] assms(3) by simp
  have 2: "copy_cmd ?argv (Suc (Suc (length c1))) 0 (replicate 10 (uninit w)) =
      Inr (Suc (Suc (length c1)) + length c2, length c2,
           map Some c2 @ replicate (10 - length c2) (uninit w))"
    using next_command [OF assms(2), of "'':'' # c3" "prog # c1 @ ['':'']" "Suc (Suc (length c1))" "uninit w"]
      assms(4) by simp
  have 3: "copy_rest ?argv (Suc (Suc (Suc (length c1 + length c2)))) 0 (replicate 10 (uninit w)) =
      Inr (Suc (Suc (Suc (length c1 + length c2))) + length c3, length c3,
           map Some c3 @ replicate (10 - length c3) (uninit w))"
    using last_command [of "prog # c1 @ '':'' # c2 @ ['':'']" "Suc (Suc (Suc (length c1 + length c2)))" c3 "uninit w"]
      assms(5) by simp
  show ?thesis
    using assms(3-6) by (simp add: main_def Let_def 1 2 3 store_null_filled)
qed

lemma main_first_too_long:
  assumes "'':'' \<notin> set c" and "r = [] \<or> hd r = '':''" and "10 \<le> length c"
  shows "main (prog # c @ r) w =
     undefined_behaviour (if length c = 10 then TerminatorStore 1 10 else CopyLoopStore 1 10) w"
proof -
  have 1: "copy_cmd (prog # c @ r) (Suc 0) 0 (replicate 10 (uninit w)) =
     (if length c \<le> 10
      then Inr (Suc (length c), length c, map Some c @ replicate (10 - length c) (uninit w))
      else Inl 10)"
    using first_command [OF assms(1,2), of prog "uninit w"] by simp
  have "c \<noteq> []" using assms(3) by auto
  then show ?thesis
    using assms(3) by (auto simp: main_def Let_def 1 store_null_filled store_null_def)
qed

lemma main_second_too_long:
  assumes "'':'' \<notin> set c1" and "length c1 \<le> 9"
    and "'':'' \<notin> set c" and "r = [] \<or> hd r = '':''" and "10 \<le> length c"
  shows "main (prog # c1 @ '':'' # c @ r) w =
     undefined_behaviour (if length c = 10 then TerminatorStore 2 10 else CopyLoopStore 2 10) w"
proof -
  let ?argv = "prog # c1 @ '':'' # c @ r"
  have 1: "copy_cmd ?argv (Suc 0) 0 (replicate 10 (uninit w)) =
      Inr (Suc (length c1), length c1, map Some c1 @ replicate (10 - length c1) (uninit w))"
    using first_command [OF assms(1), of "'':'' # c @ r" prog "uninit w"] assms(2) by simp
  have 2: "copy_cmd ?argv (Suc (Suc (length c1))) 0 (replicate 10 (uninit w)) =
     (if length c \<le> 10
      then Inr (Suc (Suc (length c1)) + length c, length c,
                map Some c @ replicate (10 - length c) (uninit w))
      else Inl 10)"
    using next_command [OF assms(3,4), of "prog # c1 @ ['':'']" "Suc (Suc (length c1))" "uninit w"]
    by simp
  show ?thesis
    using assms(2,5) by (auto simp: main_def Let_def 1 2 store_null_filled store_null_def)
qed

lemma main_third_too_long:
  assumes "'':'' \<notin> set c1" and "length c1 \<le> 9" and "'':'' \<notin> set c2" and "length c2 \<le> 9"
    and "10 \<le> length c"
  shows "main (prog # c1 @ '':'' # c2 @ '':'' # c) w =
     undefined_behaviour (if length c = 10 then TerminatorStore 3 10 else CopyLoopStore 3 10) w"
proof -
  let ?argv = "prog # c1 @ '':'' # c2 @ '':'' # c"
  have 1: "copy_cmd ?argv (Suc 0) 0 (replicate 10 (uninit w)) =
      Inr (Suc (length c1), length c1, map Some c1 @ replicate (10 - length c1) (uninit w))"
    using first_command [OF assms(1), of "'':'' # c2 @ '':'' # c" prog "uninit w"] assms(2) by simp
  have 2: "copy_cmd ?argv (Suc (Suc (length c1))) 0 (replicate 10 (uninit w)) =
      Inr (Suc (Suc (length c1)) + length c2, length c2,
           map Some c2 @ replicate (10 - length c2) (uninit w))"
    using next_command [OF assms(3), of "'':'' # c" "prog # c1 @ ['':'']" "Suc (Suc (length c1))" "uninit w"]
      assms(4) by simp
  have 3: "copy_rest ?argv (Suc (Suc (Suc (length c1 + length c2)))) 0 (replicate 10 (uninit w)) =
     (if length c \<le> 10
      then Inr (Suc (Suc (Suc (length c1 + length c2))) + length c, length c,
           map Some c @ replicate (10 - length c) (uninit w))
      else Inl 10)"
    using last_command [of "prog # c1 @ '':'' # c2 @ ['':'']" "Suc (Suc (Suc (length c1 + length c2)))" c "uninit w"]
    by simp
  show ?thesis
    using assms(2,4,5) by (auto simp: main_def Let_def 1 2 3 store_null_filled store_null_def)
qed

lemma since_exit_printf: "since w (os_exit code (os_printf msg w)) = [EvPrintf msg, EvExit code]"
  by (simp add: since_def os_exit_def os_printf_def emit_def)

text \<open>
  C6, as the code has it. An invocation with no argument, or with one command and no
  separator, or with two commands and a second separator that nothing follows, in which
  every command has at most nine tokens: \<open>main\<close> prints the matching diagnostic and calls
  \<^verbatim>\<open>exit(1)\<close>, and these are its only two calls, so no pipe is allocated and no process
  is spawned.
\<close>

theorem malformed_invocation_exits_with_1:
  assumes "(argv = [prog] \<and> msg = USAGE)
     \<or> (argv = prog # c1 \<and> c1 \<noteq> [] \<and> '':'' \<notin> set c1 \<and> length c1 \<le> 9 \<and> msg = ONLY_ONE)
     \<or> (argv = prog # c1 @ '':'' # c2 @ ['':''] \<and> '':'' \<notin> set c1 \<and> '':'' \<notin> set c2
          \<and> length c1 \<le> 9 \<and> length c2 \<le> 9 \<and> msg = MISSING_THIRD)"
  shows "since w (main argv w) = [EvPrintf msg, EvExit 1]
     \<and> status (main argv w) = Exited 1
     \<and> forked (since w (main argv w)) = [] \<and> pipes_of (since w (main argv w)) = []"
proof -
  have "main argv w = os_exit 1 (os_printf msg w)"
    using assms main_no_arguments [of prog w] main_one_command [of c1 prog w]
      main_no_third_command [of c1 c2 prog w]
    by auto
  then show ?thesis
    by (simp add: since_exit_printf) (simp add: os_exit_def)
qed

theorem malformed_invocation_exits_with_1_witness:
  "since quiet (main [''dp''] quiet) = [EvPrintf USAGE, EvExit 1]
   \<and> status (main [''dp'', ''ls'', ''-l''] quiet) = Exited 1
   \<and> since quiet (main [''dp'', ''ls'', ''-l''] quiet) = [EvPrintf ONLY_ONE, EvExit 1]
   \<and> since quiet (main [''dp'', ''ls'', '':'', ''cat'', '':''] quiet) = [EvPrintf MISSING_THIRD, EvExit 1]
   \<and> forked (since quiet (main [''dp'', ''ls'', '':'', ''cat'', '':''] quiet)) = []"
  using malformed_invocation_exits_with_1 [of "[''dp'']" "''dp''" USAGE "[]" "[]" quiet]
    malformed_invocation_exits_with_1 [of "[''dp'', ''ls'', ''-l'']" "''dp''" ONLY_ONE "[''ls'', ''-l'']" "[]" quiet]
    malformed_invocation_exits_with_1 [of "[''dp'', ''ls'', '':'', ''cat'', '':'']" "''dp''" MISSING_THIRD
       "[''ls'']" "[''cat'']" quiet]
  by simp

text \<open>
  C6, as the claim has it: every invocation without a separator would end with a diagnostic
  and status \<open>1\<close>. Twelve tokens without a separator: the copy loop stores outside
  \<^verbatim>\<open>cmd1\<close> before the missing separator is looked for; nothing is printed and the
  behaviour is undefined.
\<close>

theorem twelve_tokens_without_separator_overrun:
  "'':'' \<notin> set (replicate 12 ''x'')
   \<and> status (main (''dp'' # replicate 12 ''x'') quiet) = Undefined (CopyLoopStore 1 10)
   \<and> trace (main (''dp'' # replicate 12 ''x'') quiet) = []"
  using main_first_too_long [of "replicate 12 ''x''" "[]" "''dp''" quiet]
  by (simp add: undefined_behaviour_def quiet_def)

text \<open>
  C9, as the code has it. Take the first command of the invocation that has ten or more
  tokens (it is the first, second or third command, \<open>k\<close>). Then \<open>main\<close> stores outside
  the ten-slot array of that command before it issues any call. With exactly ten tokens the
  copy loop stays inside the array and the store outside it is \<^verbatim>\<open>cmd[10] = NULL\<close> after
  the loop; with eleven or more it is the copy loop's store at index \<open>10\<close>.
\<close>

theorem long_command_overruns_array:
  assumes "10 \<le> length c"
    and "(k = 1 \<and> argv = prog # c @ r \<and> '':'' \<notin> set c \<and> (r = [] \<or> hd r = '':''))
       \<or> (k = 2 \<and> argv = prog # c1 @ '':'' # c @ r \<and> '':'' \<notin> set c1 \<and> length c1 \<le> 9
            \<and> '':'' \<notin> set c \<and> (r = [] \<or> hd r = '':''))
       \<or> (k = 3 \<and> argv = prog # c1 @ '':'' # c2 @ '':'' # c \<and> '':'' \<notin> set c1 \<and> length c1 \<le> 9
            \<and> '':'' \<notin> set c2 \<and> length c2 \<le> 9)"
  shows "status (main argv w) =
           Undefined (if length c = 10 then TerminatorStore k 10 else CopyLoopStore k 10)
     \<and> trace (main argv w) = trace w"
proof -
  have "main argv w =
     undefined_behaviour (if length c = 10 then TerminatorStore k 10 else CopyLoopStore k 10) w"
    using assms(2) main_first_too_long [OF _ _ assms(1), of r prog w]
      main_second_too_long [OF _ _ _ _ assms(1), of c1 r prog w]
      main_third_too_long [OF _ _ _ _ assms(1), of c1 c2 prog w]
    by (elim disjE conjE) simp_all
  then show ?thesis by (simp add: undefined_behaviour_def)
qed

theorem long_command_overruns_array_witness:
  "status (main (''dp'' # replicate 10 ''x'' @ ['':'', ''cat'', '':'', ''wc'']) quiet) =
      Undefined (TerminatorStore 1 10)
   \<and> status (main (''dp'' # [''ls''] @ '':'' # replicate 11 ''x'' @ ['':'', ''wc'']) quiet) =
      Undefined (CopyLoopStore 2 10)
   \<and> status (main (''dp'' # [''ls''] @ '':'' # [''cat''] @ '':'' # replicate 10 ''x'') quiet) =
      Undefined (TerminatorStore 3 10)"
  using long_command_overruns_array [of "replicate 10 ''x''" 1
      "''dp'' # replicate 10 ''x'' @ ['':'', ''cat'', '':'', ''wc'']" "''dp''"
      "['':'', ''cat'', '':'', ''wc'']" "[]" "[]" quiet]
    long_command_overruns_array [of "replicate 11 ''x''" 2
      "''dp'' # [''ls''] @ '':'' # replicate 11 ''x'' @ ['':'', ''wc'']" "''dp''"
      "['':'', ''wc'']" "[''ls'']" "[]" quiet]
    long_command_overruns_array [of "replicate 10 ''x''" 3
      "''dp'' # [''ls''] @ '':'' # [''cat''] @ '':'' # replicate 10 ''x''" "''dp''"
      "[]" "[''ls'']" "[''cat'']" quiet]
  by simp

text \<open>
  C9, as the claim has it: with ten tokens the copy loop would write past the array, and
  nine tokens would leave no room for the null. With ten tokens the copy loop ends
  normally, having filled slots \<open>0\<close> to \<open>9\<close>, and the store outside the array is the one
  of the null; with nine tokens (and no separator) every store is inside the array and the
  run ends with \<^verbatim>\<open>exit(1)\<close>.
\<close>

theorem ten_tokens_fill_the_loop_and_nine_fit:
  "copy_cmd (''dp'' # replicate 10 ''x'') 1 0 (replicate 10 None) =
      Inr (11, 10, replicate 10 (Some ''x''))
   \<and> status (main (''dp'' # replicate 10 ''x'') quiet) = Undefined (TerminatorStore 1 10)
   \<and> status (main (''dp'' # replicate 9 ''x'') quiet) = Exited 1"
  using first_command [of "replicate 10 ''x''" "[]" "''dp''" None]
    main_first_too_long [of "replicate 10 ''x''" "[]" "''dp''" quiet]
    main_one_command [of "replicate 9 ''x''" "''dp''" quiet]
  by (simp add: undefined_behaviour_def os_exit_def)

section \<open>Every call is appended to the ledger\<close>

lemma prefix_step: "trace w' = trace w @ es \<Longrightarrow> prefix (trace w) (trace w')"
  by (simp add: prefix_def)

lemma prefix_os_close: "prefix (trace w) (trace (os_close fd w))"
  by (simp add: os_close_def emit_def)

lemma prefix_closePipes: "prefix (trace w) (trace (closePipes pipes n w))"
proof (induction pipes n w rule: closePipes.induct)
  case (3 p pipes n w)
  have "prefix (trace w) (trace (os_close (snd p) (os_close (fst p) w)))"
    by (simp add: os_close_def emit_def)
  then show ?case using "3.IH" by (auto intro: prefix_order.trans)
qed (simp_all add: undefined_behaviour_def)

lemma prefix_os_wait: "prefix (trace w) (trace (snd (os_wait w)))"
  by (cases "children w") (simp_all add: os_wait_def emit_def Let_def)

lemma prefix_wait_loop: "prefix (trace w) (trace (wait_loop i w))"
proof (induction i w rule: wait_loop.induct)
  case (1 i w)
  show ?case
  proof (cases "i < 4")
    case True
    then show ?thesis
      using "1.IH" [OF True] prefix_os_wait [of w]
      by (subst wait_loop.simps) (auto intro: prefix_order.trans)
  next
    case False
    then show ?thesis by (subst wait_loop.simps) simp
  qed
qed

lemma prefix_os_exit: "prefix (trace w) (trace (os_exit code w))"
  by (simp add: os_exit_def emit_def)

lemma prefix_os_perror: "prefix (trace w) (trace (os_perror msg w))"
  by (simp add: os_perror_def emit_def)

lemma prefix_os_execvp: "prefix (trace w) (trace (snd (os_execvp cmd w)))"
  by (auto simp: os_execvp_def emit_def undefined_behaviour_def split: list.splits option.splits)

lemma os_fork_trace: "trace (snd (os_fork w)) = trace w @ [EvFork (fst (os_fork w))]"
  by (auto simp: os_fork_def emit_def split: list.splits)

lemma os_dup2_trace: "trace (snd (os_dup2 a b w)) = trace w @ [EvDup2 a b]"
  by (auto simp: os_dup2_def emit_def)

lemma prefix_launch:
  "prefix (trace w @ [EvFork (fst (os_fork w))])
     (trace (snd (createAndExecuteProcess cmd src tgt pipes n w)))"
proof -
  obtain pid w1 where f: "os_fork w = (pid, w1)" by (cases "os_fork w")
  have t1: "trace w1 = trace w @ [EvFork pid]" using os_fork_trace [of w] f by simp
  obtain d w2 where d: "os_dup2 src tgt w1 = (d, w2)" by (cases "os_dup2 src tgt w1")
  have p2: "prefix (trace w1) (trace w2)" using os_dup2_trace [of src tgt w1] d by simp
  define w3 where "w3 = closePipes pipes n w2"
  obtain e w4 where e: "os_execvp cmd w3 = (e, w4)" by (cases "os_execvp cmd w3")
  have p4: "prefix (trace w1) (trace w4)"
    using p2 prefix_closePipes [of w2 pipes n] prefix_os_execvp [of w3 cmd] e
    by (auto simp: w3_def intro: prefix_order.trans)
  have p5: "prefix (trace w1) (trace (os_exit c (os_perror m w')))" if "prefix (trace w1) (trace w')"
    for c m w'
    using that prefix_os_exit [of "os_perror m w'" c] prefix_os_perror [of w' m]
    by (auto intro: prefix_order.trans)
  show ?thesis
    using p2 p4 p5 [of w1] p5 [of w2] p5 [of w4]
    by (auto simp: createAndExecuteProcess_def f d e w3_def [symmetric] t1 [symmetric]
             split: option.splits)
qed


lemma prefix_tee: "prefix (trace w) (trace (tee h a b w))"
  by (simp add: tee_trace)

lemma doublePipe_starts:
  fixes w :: world
  defines "h \<equiv> pipe_fds (fds w)"
  defines "a \<equiv> pipe_fds (fds w @ [fst h, snd h])"
  defines "b \<equiv> pipe_fds (fds w @ [fst h, snd h, fst a, snd a])"
  assumes "pipe_script w = True # True # True # ps"
  shows "\<exists>x es. trace (snd (doublePipe cmd1 cmd2 cmd3 w)) =
           trace w @ [EvPipe (Some h), EvPipe (Some a), EvPipe (Some b), EvFork x] @ es"
proof -
  define wa where "wa = snd (os_pipe w)"
  define wb where "wb = snd (os_pipe wa)"
  define wc where "wc = snd (os_pipe wb)"
  have e1: "os_pipe w = (Some h, wa)" and s1: "pipe_script wa = True # True # ps"
    and t1: "trace wa = trace w @ [EvPipe (Some h)]"
    and f1: "fds wa = fds w @ [fst h, snd h]"
    using assms(4) by (simp_all add: os_pipe_def wa_def h_def Let_def emit_def)
  have e2: "os_pipe wa = (Some a, wb)" and s2: "pipe_script wb = True # ps"
    and t2: "trace wb = trace wa @ [EvPipe (Some a)]"
    and f2: "fds wb = fds w @ [fst h, snd h, fst a, snd a]"
    using s1 f1 by (simp_all add: os_pipe_def wb_def a_def Let_def emit_def)
  have e3: "os_pipe wb = (Some b, wc)"
    and t3: "trace wc = trace wb @ [EvPipe (Some b)]"
    using s2 f2 by (simp_all add: os_pipe_def wc_def b_def Let_def emit_def)
  define P where "P = trace w @ [EvPipe (Some h), EvPipe (Some a), EvPipe (Some b),
      EvFork (fst (os_fork wc))]"
  obtain r1 w1 where l1: "createAndExecuteProcess cmd1 (snd h) STDOUT_FILENO [h, a, b] 3 wc = (r1, w1)"
    by (cases "createAndExecuteProcess cmd1 (snd h) STDOUT_FILENO [h, a, b] 3 wc")
  obtain pid w2 where k2: "os_fork w1 = (pid, w2)" by (cases "os_fork w1")
  obtain r3 w3 where l3: "createAndExecuteProcess cmd2 (fst a) STDIN_FILENO [h, a, b] 3 w2 = (r3, w3)"
    by (cases "createAndExecuteProcess cmd2 (fst a) STDIN_FILENO [h, a, b] 3 w2")
  obtain r4 w4 where l4: "createAndExecuteProcess cmd3 (fst b) STDIN_FILENO [h, a, b] 3 w3 = (r4, w4)"
    by (cases "createAndExecuteProcess cmd3 (fst b) STDIN_FILENO [h, a, b] 3 w3")
  have dp: "doublePipe cmd1 cmd2 cmd3 w =
     (case r1 of None \<Rightarrow> (None, w1)
      | Some _ \<Rightarrow>
         if pid = - 1 then (None, os_exit EXIT_FAILURE (os_perror FORK_ERR w2))
         else if pid = 0 then (None, tee h a b w2)
         else (case r3 of None \<Rightarrow> (None, w3)
               | Some _ \<Rightarrow>
                  (case r4 of None \<Rightarrow> (None, w4)
                   | Some _ \<Rightarrow> (Some 0, wait_loop 0 (closePipes [h, a, b] 3 w4)))))"
    by (simp add: doublePipe_def e1 e2 e3 l1 k2 l3 l4 Let_def split: option.splits)
  have p1: "prefix P (trace w1)"
    using prefix_launch [of wc cmd1 "snd h" STDOUT_FILENO "[h, a, b]" 3] l1
    by (simp add: P_def t1 t2 t3)
  have p2: "prefix (trace w1) (trace w2)" using os_fork_trace [of w1] k2 by simp
  have p3: "prefix (trace w2) (trace w3)"
    using prefix_launch [of w2 cmd2 "fst a" STDIN_FILENO "[h, a, b]" 3] l3
    by (auto dest: append_prefixD)
  have p4: "prefix (trace w3) (trace w4)"
    using prefix_launch [of w3 cmd3 "fst b" STDIN_FILENO "[h, a, b]" 3] l4
    by (auto dest: append_prefixD)
  have q2: "prefix P (trace w2)" using p1 p2 by (rule prefix_order.trans)
  have q3: "prefix P (trace w3)" using q2 p3 by (rule prefix_order.trans)
  have q4: "prefix P (trace w4)" using q3 p4 by (rule prefix_order.trans)
  have qe: "prefix P (trace (os_exit EXIT_FAILURE (os_perror FORK_ERR w2)))"
    using q2 prefix_os_perror [of w2 FORK_ERR]
      prefix_os_exit [of "os_perror FORK_ERR w2" EXIT_FAILURE]
    by (auto intro: prefix_order.trans)
  have qt: "prefix P (trace (tee h a b w2))"
    using q2 prefix_tee [of w2 h a b] by (rule prefix_order.trans)
  have qw: "prefix P (trace (wait_loop 0 (closePipes [h, a, b] 3 w4)))"
    using q4 prefix_closePipes [of w4 "[h, a, b]" 3]
      prefix_wait_loop [of "closePipes [h, a, b] 3 w4" 0]
    by (auto intro: prefix_order.trans)
  have "prefix P (trace (snd (doublePipe cmd1 cmd2 cmd3 w)))"
    using p1 qe qt q3 q4 qw by (auto simp: dp split: option.splits)
  then show ?thesis unfolding P_def prefix_def by auto
qed

section \<open>All three pipes or none\<close>

lemma pipe_failure_aborts:
  assumes "take 3 (pipe_script w) \<noteq> [True, True, True]"
  shows "fst (doublePipe cmd1 cmd2 cmd3 w) = None
     \<and> status (snd (doublePipe cmd1 cmd2 cmd3 w)) = Exited EXIT_FAILURE
     \<and> EvPerror PIPE_ERR \<in> set (since w (snd (doublePipe cmd1 cmd2 cmd3 w)))
     \<and> forked (since w (snd (doublePipe cmd1 cmd2 cmd3 w))) = []
     \<and> fds (snd (doublePipe cmd1 cmd2 cmd3 w)) = []"
  using assms
  by (auto simp: doublePipe_def os_pipe_def os_exit_def os_perror_def emit_def since_def Let_def
           split: list.splits bool.splits)

lemma three_pipes_distinct:
  fixes used :: "int list"
  defines "h \<equiv> pipe_fds used"
  defines "a \<equiv> pipe_fds (used @ [fst h, snd h])"
  defines "b \<equiv> pipe_fds (used @ [fst h, snd h, fst a, snd a])"
  shows "distinct (endpoints [h, a, b])" and "set (endpoints [h, a, b]) \<inter> set used = {}"
proof -
  note fh = pipe_fds_fresh [of used, folded h_def]
  note fa = pipe_fds_fresh [of "used @ [fst h, snd h]", folded a_def]
  note fb = pipe_fds_fresh [of "used @ [fst h, snd h, fst a, snd a]", folded b_def]
  show "distinct (endpoints [h, a, b])"
    using fh fa fb by (auto simp: endpoints_def)
  show "set (endpoints [h, a, b]) \<inter> set used = {}"
    using fh fa fb by (auto simp: endpoints_def)
qed

text \<open>
  C8. When the kernel refuses the first, the second or the third \<^verbatim>\<open>pipe\<close> call,
  \<open>doublePipe\<close> does not return: the process prints the pipe diagnostic and ends with
  \<^verbatim>\<open>EXIT_FAILURE\<close>, it has issued no \<^verbatim>\<open>fork\<close>, and once it has ended it holds no
  descriptor, so none of the pipes granted before the refusal is left behind. When the
  kernel grants all three, the first \<^verbatim>\<open>fork\<close> comes after the three \<^verbatim>\<open>pipe\<close> calls,
  whose six endpoints are distinct descriptors that were not in use before.
\<close>

theorem pipes_all_three_or_abort_before_any_fork:
  "(take 3 (pipe_script w) \<noteq> [True, True, True] \<longrightarrow>
      fst (doublePipe cmd1 cmd2 cmd3 w) = None
      \<and> status (snd (doublePipe cmd1 cmd2 cmd3 w)) = Exited EXIT_FAILURE
      \<and> EvPerror PIPE_ERR \<in> set (since w (snd (doublePipe cmd1 cmd2 cmd3 w)))
      \<and> forked (since w (snd (doublePipe cmd1 cmd2 cmd3 w))) = []
      \<and> fds (snd (doublePipe cmd1 cmd2 cmd3 w)) = [])
   \<and> (take 3 (pipe_script w) = [True, True, True] \<longrightarrow>
      (\<exists>h a b x es. since w (snd (doublePipe cmd1 cmd2 cmd3 w)) =
          [EvPipe (Some h), EvPipe (Some a), EvPipe (Some b), EvFork x] @ es
        \<and> distinct (endpoints [h, a, b]) \<and> set (endpoints [h, a, b]) \<inter> set (fds w) = {}))"
proof (intro conjI impI)
  assume g: "take 3 (pipe_script w) = [True, True, True]"
  have "pipe_script w = take 3 (pipe_script w) @ drop 3 (pipe_script w)" by simp
  then have ps: "pipe_script w = True # True # True # drop 3 (pipe_script w)"
    unfolding g by simp
  define h where "h = pipe_fds (fds w)"
  define a where "a = pipe_fds (fds w @ [fst h, snd h])"
  define b where "b = pipe_fds (fds w @ [fst h, snd h, fst a, snd a])"
  from doublePipe_starts [OF ps, of cmd1 cmd2 cmd3] obtain x es where
    "trace (snd (doublePipe cmd1 cmd2 cmd3 w)) =
       trace w @ [EvPipe (Some h), EvPipe (Some a), EvPipe (Some b), EvFork x] @ es"
    unfolding h_def a_def b_def by blast
  then have "since w (snd (doublePipe cmd1 cmd2 cmd3 w)) =
       [EvPipe (Some h), EvPipe (Some a), EvPipe (Some b), EvFork x] @ es"
    by (rule since_append)
  moreover have "distinct (endpoints [h, a, b])" "set (endpoints [h, a, b]) \<inter> set (fds w) = {}"
    unfolding h_def a_def b_def by (rule three_pipes_distinct)+
  ultimately show "\<exists>h a b x es. since w (snd (doublePipe cmd1 cmd2 cmd3 w)) =
          [EvPipe (Some h), EvPipe (Some a), EvPipe (Some b), EvFork x] @ es
        \<and> distinct (endpoints [h, a, b]) \<and> set (endpoints [h, a, b]) \<inter> set (fds w) = {}"
    by blast
qed (use pipe_failure_aborts [of w cmd1 cmd2 cmd3] in simp_all)

theorem pipes_all_three_or_abort_before_any_fork_witness:
  "take 3 (pipe_script (quiet\<lparr>pipe_script := [True, False]\<rparr>)) \<noteq> [True, True, True]
   \<and> status (snd (doublePipe [Some ''ls'', None] [Some ''cat'', None] [Some ''wc'', None]
        (quiet\<lparr>pipe_script := [True, False]\<rparr>))) = Exited 1
   \<and> forked (since (quiet\<lparr>pipe_script := [True, False]\<rparr>)
        (snd (doublePipe [Some ''ls'', None] [Some ''cat'', None] [Some ''wc'', None]
        (quiet\<lparr>pipe_script := [True, False]\<rparr>)))) = []
   \<and> fds (snd (doublePipe [Some ''ls'', None] [Some ''cat'', None] [Some ''wc'', None]
        (quiet\<lparr>pipe_script := [True, False]\<rparr>))) = []
   \<and> take 3 (pipe_script quiet) = [True, True, True]
   \<and> (\<exists>h a b x es. since quiet
          (snd (doublePipe [Some ''ls'', None] [Some ''cat'', None] [Some ''wc'', None] quiet)) =
          [EvPipe (Some h), EvPipe (Some a), EvPipe (Some b), EvFork x] @ es
        \<and> distinct (endpoints [h, a, b]) \<and> set (endpoints [h, a, b]) \<inter> set (fds quiet) = {})"
  using pipes_all_three_or_abort_before_any_fork
    [of "quiet\<lparr>pipe_script := [True, False]\<rparr>"
        "[Some ''ls'', None]" "[Some ''cat'', None]" "[Some ''wc'', None]"]
    pipes_all_three_or_abort_before_any_fork
    [of quiet "[Some ''ls'', None]" "[Some ''cat'', None]" "[Some ''wc'', None]"]
  by (simp add: quiet_def EXIT_FAILURE_def)

section \<open>Empty commands\<close>

text \<open>
  C10. An invocation with three commands, of which the first or the second is empty (and
  none is too long for its array, the third not empty): \<open>main\<close> prints no usage error but
  calls \<open>doublePipe\<close> with the three arrays, and the array of the empty command starts
  with the null pointer. When the kernel grants the pipes, the first calls of the run are
  the three \<^verbatim>\<open>pipe\<close> calls and a \<^verbatim>\<open>fork\<close>.
\<close>

theorem empty_command_reaches_doublePipe:
  assumes "argv = prog # c1 @ '':'' # c2 @ '':'' # c3"
    and "'':'' \<notin> set c1" and "'':'' \<notin> set c2"
    and "length c1 \<le> 9" and "length c2 \<le> 9" and "length c3 \<le> 9" and "c3 \<noteq> []"
    and "c1 = [] \<or> c2 = []"
  shows "main argv w =
     (case doublePipe (filled (uninit w) c1) (filled (uninit w) c2) (filled (uninit w) c3) w of
        (Some r, w') \<Rightarrow> os_exit r w'
      | (None, w') \<Rightarrow> w')
     \<and> (hd (filled (uninit w) c1) = None \<or> hd (filled (uninit w) c2) = None)
     \<and> (pipe_script w = True # True # True # ps \<longrightarrow>
          (\<exists>h a b x es. since w (main argv w) =
             [EvPipe (Some h), EvPipe (Some a), EvPipe (Some b), EvFork x] @ es))"
proof -
  let ?dp = "doublePipe (filled (uninit w) c1) (filled (uninit w) c2) (filled (uninit w) c3) w"
  have m: "main argv w = (case ?dp of (Some r, w') \<Rightarrow> os_exit r w' | (None, w') \<Rightarrow> w')"
    using main_three_commands [OF assms(2-7), of prog w] assms(1) by simp
  have n: "hd (filled (uninit w) c1) = None \<or> hd (filled (uninit w) c2) = None"
    using assms(8) by (auto simp: filled_def)
  have "\<exists>h a b x es. since w (main argv w) =
             [EvPipe (Some h), EvPipe (Some a), EvPipe (Some b), EvFork x] @ es"
    if ps: "pipe_script w = True # True # True # ps"
  proof -
    from doublePipe_starts [OF ps, of "filled (uninit w) c1" "filled (uninit w) c2"
        "filled (uninit w) c3"]
    obtain h a b x es where
      t: "trace (snd ?dp) = trace w @ [EvPipe (Some h), EvPipe (Some a), EvPipe (Some b), EvFork x] @ es"
      by blast
    obtain r w' where dp: "?dp = (r, w')" by (cases ?dp)
    have "\<exists>es'. trace (main argv w) =
        trace w @ [EvPipe (Some h), EvPipe (Some a), EvPipe (Some b), EvFork x] @ es'"
      using t dp by (cases r) (simp_all add: m os_exit_def emit_def)
    then obtain es' where
      "trace (main argv w) = trace w @ [EvPipe (Some h), EvPipe (Some a), EvPipe (Some b), EvFork x] @ es'"
      by blast
    then have "since w (main argv w) = [EvPipe (Some h), EvPipe (Some a), EvPipe (Some b), EvFork x] @ es'"
      by (rule since_append)
    then show ?thesis by blast
  qed
  then show ?thesis using m n by blast
qed

theorem empty_command_reaches_doublePipe_witness:
  "'':'' \<notin> set [''cat''] \<and> [''wc''] \<noteq> []
   \<and> hd (filled None []) = None
   \<and> trace (main [''dp'', '':'', ''cat'', '':'', ''wc''] (quiet\<lparr>fork_script := [0]\<rparr>)) =
       [EvPipe (Some (3, 4)), EvPipe (Some (5, 6)), EvPipe (Some (7, 8)), EvFork 0, EvDup2 4 1,
        EvClose 3, EvClose 4, EvClose 5, EvClose 6, EvClose 7, EvClose 8, EvExecvp None []]
   \<and> status (main [''dp'', '':'', ''cat'', '':'', ''wc''] (quiet\<lparr>fork_script := [0]\<rparr>)) =
       Undefined ExecNullFile"
  using empty_command_reaches_doublePipe
    [of "[''dp'', '':'', ''cat'', '':'', ''wc'']" "''dp''" "[]" "[''cat'']" "[''wc'']"
        "quiet\<lparr>fork_script := [0]\<rparr>" "[]"]
  by (simp add: quiet_def filled_def doublePipe_def os_pipe_def pipe_fds_quiet
        createAndExecuteProcess_def os_fork_def os_dup2_def os_close_def os_execvp_def
        emit_def undefined_behaviour_def argv_of_def STDOUT_FILENO_def Let_def numeral_3_eq_3)

end
